theory Spec2Isabelle
  imports Complex_Main "HOL-Library.Monad_Syntax"
begin

section \<open>The routine \<open>get\<close> of \<open>scripts/transition_probabilities.c\<close>\<close>

text \<open>
  The C function
  \<^verbatim>\<open>float get(float **j_z, float **j_plus, float **j_minus,
            float **transition_probability, float **eigenfunctions,
            float j, float squared_j, int size)\<close>
  fills four matrices from the eigenvector matrix. The embedding follows the source
  statement by statement:
  \<^item> the C types \<open>float\<close> and \<open>double\<close> are two type variables \<open>'f\<close> and \<open>'d\<close>, and their
    operations (with whatever rounding they perform) are the fields of a record
    \<open>arith\<close>; every conversion that C inserts (int to float, float to double for
    \<open>pow\<close> and \<open>sqrt\<close>, double to float on a store) is written out. What is proved for
    every \<open>arith\<close> holds whatever the rounding is. Two instances follow: \<open>real_arith\<close>,
    in which both types are the real numbers and nothing is rounded, and \<open>ieee_arith\<close>,
    IEEE 754 binary32 and binary64 with round to nearest, ties to even;
  \<^item> the five matrices are lists of rows; every read and write checks both indices and
    yields \<open>None\<close> out of range (undefined behaviour in C), so a run that returns
    \<open>Some\<close> made no access out of bounds;
  \<^item> the five pointer arguments are taken to point to pairwise disjoint storage: they
    are five fields of the record \<open>mem\<close>, which the routine takes and returns;
  \<^item> \<open>int\<close> variables are integers (every index stays between 0 and \<open>size\<close>, so
    no overflow arises); each \<open>for\<close> loop is the recursive function \<open>for_loop\<close>.
\<close>

subsection \<open>Arithmetic\<close>

record ('f, 'd) arith =
  f_of_int :: "int \<Rightarrow> 'f"
  d_of_int :: "int \<Rightarrow> 'd"
  to_d :: "'f \<Rightarrow> 'd"
  to_f :: "'d \<Rightarrow> 'f"
  f_add :: "'f \<Rightarrow> 'f \<Rightarrow> 'f"
  f_sub :: "'f \<Rightarrow> 'f \<Rightarrow> 'f"
  f_mul :: "'f \<Rightarrow> 'f \<Rightarrow> 'f"
  d_add :: "'d \<Rightarrow> 'd \<Rightarrow> 'd"
  d_mul :: "'d \<Rightarrow> 'd \<Rightarrow> 'd"
  d_div :: "'d \<Rightarrow> 'd \<Rightarrow> 'd"
  d_pow :: "'d \<Rightarrow> 'd \<Rightarrow> 'd"
  d_sqrt :: "'d \<Rightarrow> 'd"

text \<open>
  Exact arithmetic. \<open>pow(x, y)\<close> on the reals: an integral exponent is a power (also of a
  negative base), any other exponent goes through \<open>powr\<close>. \<open>real_arith\<close> is an idealisation of
  the C types: nothing is rounded, there is no infinity and no NaN, and \<open>sqrt\<close> of a negative
  number is the real number HOL gives it, where C gives a NaN. It serves for values that
  rounding does not change.
\<close>

definition pow_real :: "real \<Rightarrow> real \<Rightarrow> real" where
  "pow_real x y = (if y = of_int \<lfloor>y\<rfloor> then x powi \<lfloor>y\<rfloor> else x powr y)"

definition real_arith :: "(real, real) arith" where
  "real_arith =
     \<lparr> f_of_int = of_int, d_of_int = of_int, to_d = (\<lambda>x. x), to_f = (\<lambda>x. x),
       f_add = (+), f_sub = (-), f_mul = (*),
       d_add = (+), d_mul = (*), d_div = (/), d_pow = pow_real, d_sqrt = sqrt \<rparr>"

text \<open>
  IEEE 754 arithmetic. A value of either type is a finite real number (\<open>Some x\<close>) or not
  finite (\<open>None\<close>: an infinity or a NaN; the operations the routine uses, addition,
  subtraction, multiplication, division by 3, \<open>sqrt\<close> and \<open>pow\<close> with the exponent 2, never
  turn one back into a finite value). The two zeros are one value. \<open>rhe\<close> rounds to the
  nearest integer, to the even one at a tie; \<open>rnd p emin x\<close> rounds \<open>x\<close> to \<open>p\<close> significant
  bits with an exponent no smaller than \<open>emin\<close>, which covers the subnormal numbers;
  \<open>fin emax\<close> turns an overflow into \<open>None\<close>. binary32 is \<open>p = 24\<close>, \<open>emin = -126\<close>,
  \<open>emax = 127\<close>; binary64 is \<open>p = 53\<close>, \<open>emin = -1022\<close>, \<open>emax = 1023\<close>.
\<close>

definition rhe :: "real \<Rightarrow> int" where
  "rhe q = (let f = \<lfloor>q\<rfloor> in
     if q - of_int f < 1 / 2 then f
     else if 1 / 2 < q - of_int f then f + 1
     else if even f then f else f + 1)"

definition expo :: "real \<Rightarrow> int" where
  "expo x = \<lfloor>log 2 \<bar>x\<bar>\<rfloor>"

definition rnd :: "int \<Rightarrow> int \<Rightarrow> real \<Rightarrow> real" where
  "rnd p emin x =
     (let a = max (expo x) emin - (p - 1) in of_int (rhe (x / 2 powi a)) * 2 powi a)"

definition fin :: "int \<Rightarrow> real \<Rightarrow> real option" where
  "fin emax r = (if 2 powi (emax + 1) \<le> \<bar>r\<bar> then None else Some r)"

definition fl32 :: "real \<Rightarrow> real option" where
  "fl32 x = fin 127 (rnd 24 (- 126) x)"

definition fl64 :: "real \<Rightarrow> real option" where
  "fl64 x = fin 1023 (rnd 53 (- 1022) x)"

text \<open>
  Every operation computes the exact result and rounds it once, as IEEE 754 prescribes for
  \<open>+\<close>, \<open>-\<close>, \<open>*\<close>, \<open>/\<close> and \<open>sqrt\<close>; the same is taken for \<open>pow\<close>, which the routine calls with
  the exponent 2 only. \<open>sqrt\<close> of a negative number, a division by zero and \<open>pow\<close> outside
  its domain are \<open>None\<close>. Every float is a double, so \<open>to_d\<close> changes nothing. Expressions
  are evaluated in the type C gives them.
\<close>

definition lift2 ::
  "(real \<Rightarrow> real option) \<Rightarrow> (real \<Rightarrow> real \<Rightarrow> real) \<Rightarrow> real option \<Rightarrow> real option \<Rightarrow> real option" where
  "lift2 fl op a b =
     (case a of None \<Rightarrow> None | Some x \<Rightarrow> (case b of None \<Rightarrow> None | Some y \<Rightarrow> fl (op x y)))"

definition ieee_div :: "real option \<Rightarrow> real option \<Rightarrow> real option" where
  "ieee_div a b =
     (case a of None \<Rightarrow> None
      | Some x \<Rightarrow> (case b of None \<Rightarrow> None
          | Some y \<Rightarrow> if y = 0 then None else fl64 (x / y)))"

definition ieee_pow :: "real option \<Rightarrow> real option \<Rightarrow> real option" where
  "ieee_pow a b =
     (case a of None \<Rightarrow> None
      | Some x \<Rightarrow> (case b of None \<Rightarrow> None
          | Some y \<Rightarrow>
              if (x < 0 \<and> y \<noteq> of_int \<lfloor>y\<rfloor>) \<or> (x = 0 \<and> y < 0) then None
              else fl64 (pow_real x y)))"

definition ieee_sqrt :: "real option \<Rightarrow> real option" where
  "ieee_sqrt a = (case a of None \<Rightarrow> None | Some x \<Rightarrow> if x < 0 then None else fl64 (sqrt x))"

definition ieee_arith :: "(real option, real option) arith" where
  "ieee_arith =
     \<lparr> f_of_int = (\<lambda>i. fl32 (of_int i)), d_of_int = (\<lambda>i. fl64 (of_int i)),
       to_d = (\<lambda>a. a), to_f = (\<lambda>a. case a of None \<Rightarrow> None | Some x \<Rightarrow> fl32 x),
       f_add = lift2 fl32 (+), f_sub = lift2 fl32 (-), f_mul = lift2 fl32 (*),
       d_add = lift2 fl64 (+), d_mul = lift2 fl64 (*), d_div = ieee_div,
       d_pow = ieee_pow, d_sqrt = ieee_sqrt \<rparr>"

subsection \<open>Matrices and memory\<close>

type_synonym 'a matrix = "'a list list"

record 'f mem =
  j_z :: "'f matrix"
  j_plus :: "'f matrix"
  j_minus :: "'f matrix"
  transition_probability :: "'f matrix"
  eigenfunctions :: "'f matrix"

definition cell :: "'a matrix \<Rightarrow> int \<Rightarrow> int \<Rightarrow> 'a" where
  "cell m r c = m ! nat r ! nat c"

definition in_bounds :: "'a matrix \<Rightarrow> int \<Rightarrow> int \<Rightarrow> bool" where
  "in_bounds m r c \<longleftrightarrow>
     0 \<le> r \<and> r < int (length m) \<and> 0 \<le> c \<and> c < int (length (m ! nat r))"

text \<open>\<open>m[r][c]\<close> as an rvalue, and \<open>m[r][c] = v\<close>.\<close>

definition rd :: "'a matrix \<Rightarrow> int \<Rightarrow> int \<Rightarrow> 'a option" where
  "rd m r c = (if in_bounds m r c then Some (cell m r c) else None)"

definition upd :: "'a matrix \<Rightarrow> int \<Rightarrow> int \<Rightarrow> 'a \<Rightarrow> 'a matrix" where
  "upd m r c v = m[nat r := (m ! nat r)[nat c := v]]"

definition wr :: "'a matrix \<Rightarrow> int \<Rightarrow> int \<Rightarrow> 'a \<Rightarrow> 'a matrix option" where
  "wr m r c v = (if in_bounds m r c then Some (upd m r c v) else None)"

subsection \<open>Loops\<close>

text \<open>\<open>for (i = i0; i < n; i++) body\<close>, stopping at the first failing access.\<close>

function for_loop :: "int \<Rightarrow> int \<Rightarrow> (int \<Rightarrow> 's \<Rightarrow> 's option) \<Rightarrow> 's \<Rightarrow> 's option" where
  "for_loop i n body s =
     (if i < n then
        (case body i s of None \<Rightarrow> None | Some s' \<Rightarrow> for_loop (i + 1) n body s')
      else Some s)"
  by pat_completeness auto
termination
  by (relation "measure (\<lambda>(i, n, body, s). nat (n - i))") auto

declare for_loop.simps [simp del]

subsection \<open>The right-hand sides of the assignments\<close>

text \<open>Lines 7 and 9: \<open>acc += pow(x, 2) * (i - j)\<close>, with \<open>i\<close> an \<open>int\<close>. The
  difference is a \<open>float\<close>, the product and the sum are \<open>double\<close>.\<close>

definition jz_diag_add :: "('f, 'd) arith \<Rightarrow> 'f \<Rightarrow> 'f \<Rightarrow> int \<Rightarrow> 'f \<Rightarrow> 'f" where
  "jz_diag_add A j x i acc =
     to_f A (d_add A (to_d A acc)
       (d_mul A (d_pow A (to_d A x) (d_of_int A 2)) (to_d A (f_sub A (f_of_int A i) j))))"

text \<open>Line 12: \<open>sqrt(squared_j - (row_j - j) * (row_j - j + 1))\<close>.\<close>

definition diag_root :: "('f, 'd) arith \<Rightarrow> 'f \<Rightarrow> 'f \<Rightarrow> int \<Rightarrow> 'd" where
  "diag_root A j squared_j row_j =
     d_sqrt A (to_d A (f_sub A squared_j
       (f_mul A (f_sub A (f_of_int A row_j) j)
                (f_add A (f_sub A (f_of_int A row_j) j) (f_of_int A 1)))))"

text \<open>Lines 10 to 12: \<open>acc += x1 * x0 * sqrt(...)\<close>.\<close>

definition jp_diag_add :: "('f, 'd) arith \<Rightarrow> 'f \<Rightarrow> 'f \<Rightarrow> 'f \<Rightarrow> 'f \<Rightarrow> int \<Rightarrow> 'f \<Rightarrow> 'f" where
  "jp_diag_add A j squared_j x1 x0 row_j acc =
     to_f A (d_add A (to_d A acc)
       (d_mul A (to_d A (f_mul A x1 x0)) (diag_root A j squared_j row_j)))"

text \<open>Lines 17 and 21: \<open>mqn_1 = i - j\<close>; line 25: \<open>mqn_2 = column_j - j\<close>.\<close>

definition mqn :: "('f, 'd) arith \<Rightarrow> 'f \<Rightarrow> int \<Rightarrow> 'f" where
  "mqn A j i = f_sub A (f_of_int A i) j"

text \<open>Lines 18, 22, 27 and 30: \<open>acc += x * y * w\<close>, all in \<open>float\<close>.\<close>

definition off_add :: "('f, 'd) arith \<Rightarrow> 'f \<Rightarrow> 'f \<Rightarrow> 'f \<Rightarrow> 'f \<Rightarrow> 'f" where
  "off_add A x y w acc = f_add A acc (f_mul A (f_mul A x y) w)"

text \<open>Line 26: \<open>float common_root = sqrt(squared_j - mqn_1 * mqn_2)\<close>.\<close>

definition common_root :: "('f, 'd) arith \<Rightarrow> 'f \<Rightarrow> 'f \<Rightarrow> 'f \<Rightarrow> 'f" where
  "common_root A squared_j mqn_1 mqn_2 =
     to_f A (d_sqrt A (to_d A (f_sub A squared_j (f_mul A mqn_1 mqn_2))))"

text \<open>Lines 34 to 36: \<open>(pow(2 * z, 2) + pow(p, 2) + pow(m, 2)) / 3\<close>, stored as a
  \<open>float\<close>.\<close>

definition tp_value :: "('f, 'd) arith \<Rightarrow> 'f \<Rightarrow> 'f \<Rightarrow> 'f \<Rightarrow> 'f" where
  "tp_value A z p m =
     to_f A (d_div A
       (d_add A
          (d_add A (d_pow A (to_d A (f_mul A (f_of_int A 2) z)) (d_of_int A 2))
                   (d_pow A (to_d A p) (d_of_int A 2)))
          (d_pow A (to_d A m) (d_of_int A 2)))
       (d_of_int A 3))"

subsection \<open>The statements\<close>

text \<open>The parameter \<open>size\<close> of the source is \<open>sz\<close> here.\<close>

text \<open>Line 7.\<close>

definition diag_top :: "('f, 'd) arith \<Rightarrow> 'f \<Rightarrow> int \<Rightarrow> int \<Rightarrow> 'f mem \<Rightarrow> 'f mem option" where
  "diag_top A j sz row s = do {
     z \<leftarrow> rd (j_z s) row row;
     x \<leftarrow> rd (eigenfunctions s) (sz - 1) row;
     jz' \<leftarrow> wr (j_z s) row row (jz_diag_add A j x (sz - 1) z);
     Some (s\<lparr>j_z := jz'\<rparr>)
   }"

text \<open>Lines 9 to 12, the body of the first inner loop.\<close>

definition diag_step ::
  "('f, 'd) arith \<Rightarrow> 'f \<Rightarrow> 'f \<Rightarrow> int \<Rightarrow> int \<Rightarrow> 'f mem \<Rightarrow> 'f mem option" where
  "diag_step A j squared_j row row_j s = do {
     z \<leftarrow> rd (j_z s) row row;
     x \<leftarrow> rd (eigenfunctions s) row_j row;
     jz' \<leftarrow> wr (j_z s) row row (jz_diag_add A j x row_j z);
     p \<leftarrow> rd (j_plus s) row row;
     x1 \<leftarrow> rd (eigenfunctions s) (row_j + 1) row;
     x0 \<leftarrow> rd (eigenfunctions s) row_j row;
     jp' \<leftarrow> wr (j_plus s) row row (jp_diag_add A j squared_j x1 x0 row_j p);
     Some (s\<lparr>j_z := jz', j_plus := jp'\<rparr>)
   }"

text \<open>Line 15.\<close>

definition diag_copy :: "int \<Rightarrow> 'f mem \<Rightarrow> 'f mem option" where
  "diag_copy row s = do {
     p \<leftarrow> rd (j_plus s) row row;
     jm' \<leftarrow> wr (j_minus s) row row p;
     Some (s\<lparr>j_minus := jm'\<rparr>)
   }"

text \<open>Lines 17 to 19.\<close>

definition off_top ::
  "('f, 'd) arith \<Rightarrow> 'f \<Rightarrow> int \<Rightarrow> int \<Rightarrow> int \<Rightarrow> 'f mem \<Rightarrow> 'f mem option" where
  "off_top A j sz row column s = do {
     let mqn_1 = mqn A j (sz - 1);
     z \<leftarrow> rd (j_z s) row column;
     x \<leftarrow> rd (eigenfunctions s) (sz - 1) row;
     y \<leftarrow> rd (eigenfunctions s) (sz - 1) column;
     jz' \<leftarrow> wr (j_z s) row column (off_add A x y mqn_1 z);
     Some (s\<lparr>j_z := jz'\<rparr>)
   }"

text \<open>Lines 21 to 32, the body of the second inner loop.\<close>

definition off_step ::
  "('f, 'd) arith \<Rightarrow> 'f \<Rightarrow> 'f \<Rightarrow> int \<Rightarrow> int \<Rightarrow> int \<Rightarrow> 'f mem \<Rightarrow> 'f mem option" where
  "off_step A j squared_j row column row_j s = do {
     let mqn_1 = mqn A j row_j;
     z \<leftarrow> rd (j_z s) row column;
     x \<leftarrow> rd (eigenfunctions s) row_j row;
     y \<leftarrow> rd (eigenfunctions s) row_j column;
     jz' \<leftarrow> wr (j_z s) row column (off_add A x y mqn_1 z);
     let column_j = row_j + 1;
     let mqn_2 = mqn A j column_j;
     let root = common_root A squared_j mqn_1 mqn_2;
     p \<leftarrow> rd (j_plus s) row column;
     x1 \<leftarrow> rd (eigenfunctions s) column_j row;
     y0 \<leftarrow> rd (eigenfunctions s) row_j column;
     jp' \<leftarrow> wr (j_plus s) row column (off_add A x1 y0 root p);
     m \<leftarrow> rd (j_minus s) row column;
     x0 \<leftarrow> rd (eigenfunctions s) row_j row;
     y1 \<leftarrow> rd (eigenfunctions s) column_j column;
     jm' \<leftarrow> wr (j_minus s) row column (off_add A x0 y1 root m);
     Some (s\<lparr>j_z := jz', j_plus := jp', j_minus := jm'\<rparr>)
   }"

text \<open>Lines 34 to 40.\<close>

definition off_finish :: "('f, 'd) arith \<Rightarrow> int \<Rightarrow> int \<Rightarrow> 'f mem \<Rightarrow> 'f mem option" where
  "off_finish A row column s = do {
     z \<leftarrow> rd (j_z s) row column;
     p \<leftarrow> rd (j_plus s) row column;
     m \<leftarrow> rd (j_minus s) row column;
     tp' \<leftarrow> wr (transition_probability s) row column (tp_value A z p m);
     z' \<leftarrow> rd (j_z s) row column;
     jz' \<leftarrow> wr (j_z s) column row z';
     m' \<leftarrow> rd (j_minus s) row column;
     jp' \<leftarrow> wr (j_plus s) column row m';
     p' \<leftarrow> rd jp' row column;
     jm' \<leftarrow> wr (j_minus s) column row p';
     t \<leftarrow> rd tp' row column;
     tp'' \<leftarrow> wr tp' column row t;
     Some (s\<lparr>j_z := jz', j_plus := jp', j_minus := jm', transition_probability := tp''\<rparr>)
   }"

text \<open>Lines 17 to 40, the body of the loop over \<open>column\<close>.\<close>

definition column_body ::
  "('f, 'd) arith \<Rightarrow> 'f \<Rightarrow> 'f \<Rightarrow> int \<Rightarrow> int \<Rightarrow> int \<Rightarrow> 'f mem \<Rightarrow> 'f mem option" where
  "column_body A j squared_j sz row column s = do {
     s1 \<leftarrow> off_top A j sz row column s;
     s2 \<leftarrow> for_loop 0 (sz - 1) (off_step A j squared_j row column) s1;
     off_finish A row column s2
   }"

text \<open>Lines 7 to 41, the body of the loop over \<open>row\<close>.\<close>

definition row_body ::
  "('f, 'd) arith \<Rightarrow> 'f \<Rightarrow> 'f \<Rightarrow> int \<Rightarrow> int \<Rightarrow> 'f mem \<Rightarrow> 'f mem option" where
  "row_body A j squared_j sz row s = do {
     s1 \<leftarrow> diag_top A j sz row s;
     s2 \<leftarrow> for_loop 0 (sz - 1) (diag_step A j squared_j row) s1;
     s3 \<leftarrow> diag_copy row s2;
     for_loop (row + 1) sz (column_body A j squared_j sz row) s3
   }"

text \<open>The function: the loop over \<open>row\<close>, then lines 43 and 44, which read the four
  cells \<open>[0][0]\<close> into \<open>result\<close> and return \<open>result[0]\<close>. The matrices come first in
  the C parameter list; here they are the fields of \<open>s\<close>.\<close>

definition get :: "('f, 'd) arith \<Rightarrow> 'f mem \<Rightarrow> 'f \<Rightarrow> 'f \<Rightarrow> int \<Rightarrow> ('f \<times> 'f mem) option" where
  "get A s j squared_j sz = do {
     s' \<leftarrow> for_loop 0 sz (row_body A j squared_j sz) s;
     r0 \<leftarrow> rd (j_z s') 0 0;
     r1 \<leftarrow> rd (j_plus s') 0 0;
     r2 \<leftarrow> rd (j_minus s') 0 0;
     r3 \<leftarrow> rd (transition_probability s') 0 0;
     let result = [r0, r1, r2, r3];
     Some (result ! 0, s')
   }"

section \<open>Specification vocabulary\<close>

text \<open>A matrix of \<open>n\<close> rows of \<open>n\<close> cells, and a memory of five such matrices: what the
  caller has to allocate for \<open>size = n\<close>.\<close>

definition sized :: "int \<Rightarrow> 'a matrix \<Rightarrow> bool" where
  "sized n m \<longleftrightarrow> int (length m) = n \<and> (\<forall>row \<in> set m. int (length row) = n)"

definition sized_mem :: "int \<Rightarrow> 'f mem \<Rightarrow> bool" where
  "sized_mem n s \<longleftrightarrow>
     sized n (j_z s) \<and> sized n (j_plus s) \<and> sized n (j_minus s) \<and>
     sized n (transition_probability s) \<and> sized n (eigenfunctions s)"

text \<open>The value of \<open>acc\<close> after \<open>for (i = 0; i < k; i++) acc = f i acc\<close>.\<close>

definition accumulate :: "(int \<Rightarrow> 'a \<Rightarrow> 'a) \<Rightarrow> 'a \<Rightarrow> int \<Rightarrow> 'a" where
  "accumulate f a k = foldl (\<lambda>acc i. f i acc) a [0..k - 1]"

text \<open>What lines 7 to 13 leave in \<open>j_z[r][r]\<close> and \<open>j_plus[r][r]\<close>, and lines 17 to 33 in
  \<open>j_z[r][c]\<close>, \<open>j_plus[r][c]\<close> and \<open>j_minus[r][c]\<close>, when the cell held \<open>z0\<close>, \<open>p0\<close> or
  \<open>m0\<close> before: the terms of the source, added to the cell one after the other.\<close>

definition jz_diag :: "('f, 'd) arith \<Rightarrow> 'f matrix \<Rightarrow> 'f \<Rightarrow> int \<Rightarrow> int \<Rightarrow> 'f \<Rightarrow> 'f" where
  "jz_diag A e j n r z0 =
     accumulate (\<lambda>i. jz_diag_add A j (cell e i r) i)
       (jz_diag_add A j (cell e (n - 1) r) (n - 1) z0) (n - 1)"

definition jp_diag :: "('f, 'd) arith \<Rightarrow> 'f matrix \<Rightarrow> 'f \<Rightarrow> 'f \<Rightarrow> int \<Rightarrow> int \<Rightarrow> 'f \<Rightarrow> 'f" where
  "jp_diag A e j sq n r p0 =
     accumulate (\<lambda>i. jp_diag_add A j sq (cell e (i + 1) r) (cell e i r) i) p0 (n - 1)"

definition jz_off ::
  "('f, 'd) arith \<Rightarrow> 'f matrix \<Rightarrow> 'f \<Rightarrow> int \<Rightarrow> int \<Rightarrow> int \<Rightarrow> 'f \<Rightarrow> 'f" where
  "jz_off A e j n r c z0 =
     accumulate (\<lambda>i. off_add A (cell e i r) (cell e i c) (mqn A j i))
       (off_add A (cell e (n - 1) r) (cell e (n - 1) c) (mqn A j (n - 1)) z0) (n - 1)"

definition jp_off ::
  "('f, 'd) arith \<Rightarrow> 'f matrix \<Rightarrow> 'f \<Rightarrow> 'f \<Rightarrow> int \<Rightarrow> int \<Rightarrow> int \<Rightarrow> 'f \<Rightarrow> 'f" where
  "jp_off A e j sq n r c p0 =
     accumulate (\<lambda>i. off_add A (cell e (i + 1) r) (cell e i c)
                    (common_root A sq (mqn A j i) (mqn A j (i + 1)))) p0 (n - 1)"

definition jm_off ::
  "('f, 'd) arith \<Rightarrow> 'f matrix \<Rightarrow> 'f \<Rightarrow> 'f \<Rightarrow> int \<Rightarrow> int \<Rightarrow> int \<Rightarrow> 'f \<Rightarrow> 'f" where
  "jm_off A e j sq n r c m0 =
     accumulate (\<lambda>i. off_add A (cell e i r) (cell e (i + 1) c)
                    (common_root A sq (mqn A j i) (mqn A j (i + 1)))) m0 (n - 1)"

text \<open>A matrix that is \<open>n\<close> by \<open>n\<close> and holds \<open>f r c\<close> in every cell.\<close>

definition agrees :: "int \<Rightarrow> 'a matrix \<Rightarrow> (int \<Rightarrow> int \<Rightarrow> 'a) \<Rightarrow> bool" where
  "agrees n m f \<longleftrightarrow>
     sized n m \<and> (\<forall>r c. 0 \<le> r \<longrightarrow> r < n \<longrightarrow> 0 \<le> c \<longrightarrow> c < n \<longrightarrow> cell m r c = f r c)"

text \<open>The cells after the loop over \<open>column\<close> has run from \<open>row + 1\<close> up to \<open>k\<close>.\<close>

definition col_jz ::
  "('f, 'd) arith \<Rightarrow> 'f mem \<Rightarrow> 'f \<Rightarrow> int \<Rightarrow> int \<Rightarrow> int \<Rightarrow> int \<Rightarrow> int \<Rightarrow> 'f" where
  "col_jz A s j n row k r c =
     (if r = row \<and> row < c \<and> c < k
        then jz_off A (eigenfunctions s) j n row c (cell (j_z s) row c)
      else if c = row \<and> row < r \<and> r < k
        then jz_off A (eigenfunctions s) j n row r (cell (j_z s) row r)
      else cell (j_z s) r c)"

definition col_jp ::
  "('f, 'd) arith \<Rightarrow> 'f mem \<Rightarrow> 'f \<Rightarrow> 'f \<Rightarrow> int \<Rightarrow> int \<Rightarrow> int \<Rightarrow> int \<Rightarrow> int \<Rightarrow> 'f" where
  "col_jp A s j sq n row k r c =
     (if r = row \<and> row < c \<and> c < k
        then jp_off A (eigenfunctions s) j sq n row c (cell (j_plus s) row c)
      else if c = row \<and> row < r \<and> r < k
        then jm_off A (eigenfunctions s) j sq n row r (cell (j_minus s) row r)
      else cell (j_plus s) r c)"

definition col_jm ::
  "('f, 'd) arith \<Rightarrow> 'f mem \<Rightarrow> 'f \<Rightarrow> 'f \<Rightarrow> int \<Rightarrow> int \<Rightarrow> int \<Rightarrow> int \<Rightarrow> int \<Rightarrow> 'f" where
  "col_jm A s j sq n row k r c =
     (if r = row \<and> row < c \<and> c < k
        then jm_off A (eigenfunctions s) j sq n row c (cell (j_minus s) row c)
      else if c = row \<and> row < r \<and> r < k
        then jp_off A (eigenfunctions s) j sq n row r (cell (j_plus s) row r)
      else cell (j_minus s) r c)"

text \<open>What lines 34 to 36 store in \<open>transition_probability[r][c]\<close>.\<close>

definition tp_off ::
  "('f, 'd) arith \<Rightarrow> 'f mem \<Rightarrow> 'f \<Rightarrow> 'f \<Rightarrow> int \<Rightarrow> int \<Rightarrow> int \<Rightarrow> 'f" where
  "tp_off A s j sq n r c =
     tp_value A (jz_off A (eigenfunctions s) j n r c (cell (j_z s) r c))
       (jp_off A (eigenfunctions s) j sq n r c (cell (j_plus s) r c))
       (jm_off A (eigenfunctions s) j sq n r c (cell (j_minus s) r c))"

definition col_tp ::
  "('f, 'd) arith \<Rightarrow> 'f mem \<Rightarrow> 'f \<Rightarrow> 'f \<Rightarrow> int \<Rightarrow> int \<Rightarrow> int \<Rightarrow> int \<Rightarrow> int \<Rightarrow> 'f" where
  "col_tp A s j sq n row k r c =
     (if r = row \<and> row < c \<and> c < k then tp_off A s j sq n row c
      else if c = row \<and> row < r \<and> r < k then tp_off A s j sq n row r
      else cell (transition_probability s) r c)"

text \<open>The invariant of the loop over \<open>column\<close>, \<open>s\<close> being the memory at its entry.\<close>

definition col_inv ::
  "('f, 'd) arith \<Rightarrow> 'f mem \<Rightarrow> 'f \<Rightarrow> 'f \<Rightarrow> int \<Rightarrow> int \<Rightarrow> int \<Rightarrow> 'f mem \<Rightarrow> bool" where
  "col_inv A s j sq n row k t \<longleftrightarrow>
     eigenfunctions t = eigenfunctions s \<and>
     agrees n (j_z t) (col_jz A s j n row k) \<and>
     agrees n (j_plus t) (col_jp A s j sq n row k) \<and>
     agrees n (j_minus t) (col_jm A s j sq n row k) \<and>
     agrees n (transition_probability t) (col_tp A s j sq n row k)"

text \<open>The cells after one pass of the loop over \<open>row\<close>, in terms of the cells before.\<close>

definition row_jz ::
  "('f, 'd) arith \<Rightarrow> 'f mem \<Rightarrow> 'f \<Rightarrow> int \<Rightarrow> int \<Rightarrow> int \<Rightarrow> int \<Rightarrow> 'f" where
  "row_jz A s j n row r c =
     (if r = row \<and> c = row then jz_diag A (eigenfunctions s) j n row (cell (j_z s) row row)
      else if r = row \<and> row < c then jz_off A (eigenfunctions s) j n row c (cell (j_z s) row c)
      else if c = row \<and> row < r then jz_off A (eigenfunctions s) j n row r (cell (j_z s) row r)
      else cell (j_z s) r c)"

definition row_jp ::
  "('f, 'd) arith \<Rightarrow> 'f mem \<Rightarrow> 'f \<Rightarrow> 'f \<Rightarrow> int \<Rightarrow> int \<Rightarrow> int \<Rightarrow> int \<Rightarrow> 'f" where
  "row_jp A s j sq n row r c =
     (if r = row \<and> c = row
        then jp_diag A (eigenfunctions s) j sq n row (cell (j_plus s) row row)
      else if r = row \<and> row < c
        then jp_off A (eigenfunctions s) j sq n row c (cell (j_plus s) row c)
      else if c = row \<and> row < r
        then jm_off A (eigenfunctions s) j sq n row r (cell (j_minus s) row r)
      else cell (j_plus s) r c)"

definition row_jm ::
  "('f, 'd) arith \<Rightarrow> 'f mem \<Rightarrow> 'f \<Rightarrow> 'f \<Rightarrow> int \<Rightarrow> int \<Rightarrow> int \<Rightarrow> int \<Rightarrow> 'f" where
  "row_jm A s j sq n row r c =
     (if r = row \<and> c = row
        then jp_diag A (eigenfunctions s) j sq n row (cell (j_plus s) row row)
      else if r = row \<and> row < c
        then jm_off A (eigenfunctions s) j sq n row c (cell (j_minus s) row c)
      else if c = row \<and> row < r
        then jp_off A (eigenfunctions s) j sq n row r (cell (j_plus s) row r)
      else cell (j_minus s) r c)"

definition row_tp ::
  "('f, 'd) arith \<Rightarrow> 'f mem \<Rightarrow> 'f \<Rightarrow> 'f \<Rightarrow> int \<Rightarrow> int \<Rightarrow> int \<Rightarrow> int \<Rightarrow> 'f" where
  "row_tp A s j sq n row r c =
     (if r = row \<and> row < c then tp_off A s j sq n row c
      else if c = row \<and> row < r then tp_off A s j sq n row r
      else cell (transition_probability s) r c)"

text \<open>The cells on return, in terms of the cells at the call.\<close>

definition final_jz ::
  "('f, 'd) arith \<Rightarrow> 'f mem \<Rightarrow> 'f \<Rightarrow> int \<Rightarrow> int \<Rightarrow> int \<Rightarrow> 'f" where
  "final_jz A s j n r c =
     (if r = c then jz_diag A (eigenfunctions s) j n r (cell (j_z s) r r)
      else if r < c then jz_off A (eigenfunctions s) j n r c (cell (j_z s) r c)
      else jz_off A (eigenfunctions s) j n c r (cell (j_z s) c r))"

definition final_jp ::
  "('f, 'd) arith \<Rightarrow> 'f mem \<Rightarrow> 'f \<Rightarrow> 'f \<Rightarrow> int \<Rightarrow> int \<Rightarrow> int \<Rightarrow> 'f" where
  "final_jp A s j sq n r c =
     (if r = c then jp_diag A (eigenfunctions s) j sq n r (cell (j_plus s) r r)
      else if r < c then jp_off A (eigenfunctions s) j sq n r c (cell (j_plus s) r c)
      else jm_off A (eigenfunctions s) j sq n c r (cell (j_minus s) c r))"

definition final_jm ::
  "('f, 'd) arith \<Rightarrow> 'f mem \<Rightarrow> 'f \<Rightarrow> 'f \<Rightarrow> int \<Rightarrow> int \<Rightarrow> int \<Rightarrow> 'f" where
  "final_jm A s j sq n r c =
     (if r = c then jp_diag A (eigenfunctions s) j sq n r (cell (j_plus s) r r)
      else if r < c then jm_off A (eigenfunctions s) j sq n r c (cell (j_minus s) r c)
      else jp_off A (eigenfunctions s) j sq n c r (cell (j_plus s) c r))"

definition final_tp ::
  "('f, 'd) arith \<Rightarrow> 'f mem \<Rightarrow> 'f \<Rightarrow> 'f \<Rightarrow> int \<Rightarrow> int \<Rightarrow> int \<Rightarrow> 'f" where
  "final_tp A s j sq n r c =
     (if r = c then cell (transition_probability s) r r
      else if r < c then tp_off A s j sq n r c
      else tp_off A s j sq n c r)"

text \<open>The invariant of the loop over \<open>row\<close>, \<open>s\<close> being the memory at the call: the cells
  with a row or column index below \<open>k\<close> are final, the others untouched.\<close>

definition row_inv ::
  "('f, 'd) arith \<Rightarrow> 'f mem \<Rightarrow> 'f \<Rightarrow> 'f \<Rightarrow> int \<Rightarrow> int \<Rightarrow> 'f mem \<Rightarrow> bool" where
  "row_inv A s j sq n k t \<longleftrightarrow>
     eigenfunctions t = eigenfunctions s \<and>
     agrees n (j_z t) (\<lambda>r c. if min r c < k then final_jz A s j n r c else cell (j_z s) r c) \<and>
     agrees n (j_plus t)
       (\<lambda>r c. if min r c < k then final_jp A s j sq n r c else cell (j_plus s) r c) \<and>
     agrees n (j_minus t)
       (\<lambda>r c. if min r c < k then final_jm A s j sq n r c else cell (j_minus s) r c) \<and>
     agrees n (transition_probability t)
       (\<lambda>r c. if min r c < k then final_tp A s j sq n r c
              else cell (transition_probability s) r c)"

text \<open>The inputs the claims speak of: a zero-initialised matrix, the identity matrix, a
  memory whose four output matrices are zero-initialised, and a matrix with one column
  negated.\<close>

definition zeros :: "int \<Rightarrow> 'a::zero matrix" where
  "zeros n = replicate (nat n) (replicate (nat n) 0)"

definition identity :: "int \<Rightarrow> 'a::{zero,one} matrix" where
  "identity n = map (\<lambda>r. map (\<lambda>c. if r = c then 1 else 0) [0..n - 1]) [0..n - 1]"

definition zeroed :: "int \<Rightarrow> 'f::zero matrix \<Rightarrow> 'f mem" where
  "zeroed n e =
     \<lparr> j_z = zeros n, j_plus = zeros n, j_minus = zeros n,
       transition_probability = zeros n, eigenfunctions = e \<rparr>"

definition negate_column :: "int \<Rightarrow> 'a::uminus matrix \<Rightarrow> 'a matrix" where
  "negate_column k e = map (\<lambda>row. row[nat k := - (row ! nat k)]) e"

text \<open>The input of the case \<open>J = 1/2\<close>: \<open>size = 2\<close>, identity eigenvectors, zeroed outputs.\<close>

definition J_half :: "real mem" where
  "J_half = zeroed 2 (identity 2)"

text \<open>The sign that negating column \<open>k\<close> gives the cell \<open>(r, c)\<close>.\<close>

definition flip :: "int \<Rightarrow> int \<Rightarrow> int \<Rightarrow> real" where
  "flip k r c = (if (r = k) = (c = k) then 1 else - 1)"

text \<open>The numbers \<open>rnd p emin\<close> yields: \<open>k * 2^a\<close> with \<open>k\<close> of at most \<open>p\<close> bits and \<open>a\<close> no
  smaller than the least exponent; and the finite binary32 numbers.\<close>

definition representable :: "int \<Rightarrow> int \<Rightarrow> real \<Rightarrow> bool" where
  "representable p emin y \<longleftrightarrow>
     (\<exists>k a. y = of_int k * 2 powi a \<and> \<bar>k\<bar> < 2 ^ nat p \<and> emin - (p - 1) \<le> a)"

definition float32 :: "real option \<Rightarrow> bool" where
  "float32 a \<longleftrightarrow> (\<exists>x. a = Some x \<and> representable 24 (- 126) x \<and> \<bar>x\<bar> < 2 powi 128)"

text \<open>For any type of cells: a matrix filled with \<open>z\<close>, the identity matrix with zero \<open>z\<close> and
  unit \<open>u\<close>, and a memory whose four output matrices are filled with \<open>z\<close>.\<close>

definition const_matrix :: "int \<Rightarrow> 'a \<Rightarrow> 'a matrix" where
  "const_matrix n z = replicate (nat n) (replicate (nat n) z)"

definition unit_matrix :: "int \<Rightarrow> 'a \<Rightarrow> 'a \<Rightarrow> 'a matrix" where
  "unit_matrix n z u = map (\<lambda>r. map (\<lambda>c. if r = c then u else z) [0..n - 1]) [0..n - 1]"

definition cleared :: "int \<Rightarrow> 'f \<Rightarrow> 'f matrix \<Rightarrow> 'f mem" where
  "cleared n z e =
     \<lparr> j_z = const_matrix n z, j_plus = const_matrix n z, j_minus = const_matrix n z,
       transition_probability = const_matrix n z, eigenfunctions = e \<rparr>"

text \<open>An orthonormal eigenvector matrix of size 2 other than the identity (the columns are
  the eigenvectors), and a memory with it whose output matrices are not zero-initialised.\<close>

definition tilted :: "real matrix" where
  "tilted = [[3 / 5, 4 / 5], [- 4 / 5, 3 / 5]]"

definition busy_tilted :: "real mem" where
  "busy_tilted =
     \<lparr> j_z = [[1, 2], [3, 4]], j_plus = [[5, 6], [7, 8]], j_minus = [[9, 10], [11, 12]],
       transition_probability = [[13, 14], [15, 16]], eigenfunctions = tilted \<rparr>"

text \<open>A memory of size 2 with a non-zero cell in each of the four output matrices, all of
  them cells the routine assigns before it reads them.\<close>

definition junk :: "real option mem" where
  "junk = \<lparr> j_z = [[Some 0, Some 0], [Some 7, Some 0]],
             j_plus = [[Some 0, Some 0], [Some 7, Some 0]],
             j_minus = [[Some 7, Some 0], [Some 7, Some 7]],
             transition_probability = [[Some 0, Some 7], [Some 7, Some 0]],
             eigenfunctions = unit_matrix 2 (Some 0) (Some 1) \<rparr>"

section \<open>Reading and writing sized matrices\<close>

lemma in_bounds_sized:
  "sized n m \<Longrightarrow> in_bounds m r c \<longleftrightarrow> 0 \<le> r \<and> r < n \<and> 0 \<le> c \<and> c < n"
  by (auto simp: sized_def in_bounds_def)

lemma rd_sized:
  "sized n m \<Longrightarrow> 0 \<le> r \<Longrightarrow> r < n \<Longrightarrow> 0 \<le> c \<Longrightarrow> c < n \<Longrightarrow> rd m r c = Some (cell m r c)"
  by (simp add: rd_def in_bounds_sized)

lemma wr_sized:
  "sized n m \<Longrightarrow> 0 \<le> r \<Longrightarrow> r < n \<Longrightarrow> 0 \<le> c \<Longrightarrow> c < n \<Longrightarrow> wr m r c v = Some (upd m r c v)"
  by (simp add: wr_def in_bounds_sized)

lemma sized_upd: "sized n m \<Longrightarrow> sized n (upd m r c v)"
proof (cases "nat r < length m")
  case True
  assume s: "sized n m"
  then have "int (length ((m ! nat r)[nat c := v])) = n"
    using True by (simp add: sized_def)
  with s show ?thesis
    by (auto simp: sized_def upd_def dest!: set_update_subset_insert [THEN subsetD])
next
  case False
  assume "sized n m"
  with False show ?thesis by (simp add: upd_def list_update_beyond)
qed

lemma cell_upd:
  "sized n m \<Longrightarrow> 0 \<le> r \<Longrightarrow> r < n \<Longrightarrow> 0 \<le> c \<Longrightarrow> c < n \<Longrightarrow>
   0 \<le> r' \<Longrightarrow> r' < n \<Longrightarrow> 0 \<le> c' \<Longrightarrow> c' < n \<Longrightarrow>
   cell (upd m r c v) r' c' = (if r' = r \<and> c' = c then v else cell m r' c')"
  by (auto simp: sized_def cell_def upd_def nth_list_update)

lemma upd_upd: "upd (upd m r c v) r c w = upd m r c w"
  by (cases "nat r < length m") (simp_all add: upd_def list_update_beyond)

lemma upd_cell: "upd m r c (cell m r c) = m"
  by (simp add: upd_def cell_def)

lemma for_loop_rule:
  assumes "I i s" and "i \<le> n"
    and "\<And>k t. i \<le> k \<Longrightarrow> k < n \<Longrightarrow> I k t \<Longrightarrow> \<exists>t'. body k t = Some t' \<and> I (k + 1) t'"
  shows "\<exists>t. for_loop i n body s = Some t \<and> I n t"
  using assms
proof (induction i n body s rule: for_loop.induct)
  case (1 i n body s)
  show ?case
  proof (cases "i < n")
    case True
    with 1(2,4) obtain s' where s': "body i s = Some s'" "I (i + 1) s'" by force
    have "\<exists>t. for_loop (i + 1) n body s' = Some t \<and> I n t"
      using True s' 1(4) by (intro 1(1)) auto
    then show ?thesis using True s' by (subst for_loop.simps) simp
  next
    case False
    with 1(2,3) show ?thesis by (subst for_loop.simps) simp
  qed
qed

lemma accumulate_0: "k \<le> 0 \<Longrightarrow> accumulate f a k = a"
  by (simp add: accumulate_def)

lemma accumulate_step: "0 \<le> k \<Longrightarrow> accumulate f a (k + 1) = f k (accumulate f a k)"
  by (simp add: accumulate_def upto_rec2 [of 0 k])

lemma sized_mem_upds:
  "sized_mem n s \<Longrightarrow> sized_mem n (s\<lparr>j_z := upd (j_z s) r c v\<rparr>)"
  "sized_mem n s \<Longrightarrow> sized_mem n (s\<lparr>j_plus := upd (j_plus s) r c v\<rparr>)"
  "sized_mem n s \<Longrightarrow> sized_mem n (s\<lparr>j_minus := upd (j_minus s) r c v\<rparr>)"
  "sized_mem n s \<Longrightarrow>
     sized_mem n (s\<lparr>transition_probability := upd (transition_probability s) r c v\<rparr>)"
  by (simp_all add: sized_mem_def sized_upd)

lemma diag_top_eq:
  assumes "sized_mem n s" "0 \<le> row" "row < n"
  shows "diag_top A j n row s =
    Some (s\<lparr>j_z := upd (j_z s) row row
      (jz_diag_add A j (cell (eigenfunctions s) (n - 1) row) (n - 1) (cell (j_z s) row row))\<rparr>)"
  using assms by (simp add: diag_top_def sized_mem_def rd_sized [where n = n] wr_sized [where n = n])

lemma diag_step_eq:
  assumes "sized_mem n s" "0 \<le> row" "row < n" "0 \<le> i" "i < n - 1"
  shows "diag_step A j sq row i s =
    Some (s\<lparr>j_z := upd (j_z s) row row
               (jz_diag_add A j (cell (eigenfunctions s) i row) i (cell (j_z s) row row)),
             j_plus := upd (j_plus s) row row
               (jp_diag_add A j sq (cell (eigenfunctions s) (i + 1) row)
                  (cell (eigenfunctions s) i row) i (cell (j_plus s) row row))\<rparr>)"
  using assms by (simp add: diag_step_def sized_mem_def rd_sized [where n = n] wr_sized [where n = n])

lemma diag_copy_eq:
  assumes "sized_mem n s" "0 \<le> row" "row < n"
  shows "diag_copy row s = Some (s\<lparr>j_minus := upd (j_minus s) row row (cell (j_plus s) row row)\<rparr>)"
  using assms by (simp add: diag_copy_def sized_mem_def rd_sized [where n = n] wr_sized [where n = n])

lemma off_top_eq:
  assumes "sized_mem n s" "0 \<le> row" "row < column" "column < n"
  shows "off_top A j n row column s =
    Some (s\<lparr>j_z := upd (j_z s) row column
      (off_add A (cell (eigenfunctions s) (n - 1) row) (cell (eigenfunctions s) (n - 1) column)
         (mqn A j (n - 1)) (cell (j_z s) row column))\<rparr>)"
  using assms by (simp add: off_top_def sized_mem_def rd_sized [where n = n] wr_sized [where n = n])

lemma off_step_eq:
  assumes "sized_mem n s" "0 \<le> row" "row < column" "column < n" "0 \<le> i" "i < n - 1"
  shows "off_step A j sq row column i s =
    Some (s\<lparr>j_z := upd (j_z s) row column
               (off_add A (cell (eigenfunctions s) i row) (cell (eigenfunctions s) i column)
                  (mqn A j i) (cell (j_z s) row column)),
             j_plus := upd (j_plus s) row column
               (off_add A (cell (eigenfunctions s) (i + 1) row) (cell (eigenfunctions s) i column)
                  (common_root A sq (mqn A j i) (mqn A j (i + 1))) (cell (j_plus s) row column)),
             j_minus := upd (j_minus s) row column
               (off_add A (cell (eigenfunctions s) i row) (cell (eigenfunctions s) (i + 1) column)
                  (common_root A sq (mqn A j i) (mqn A j (i + 1))) (cell (j_minus s) row column))\<rparr>)"
  using assms by (simp add: off_step_def sized_mem_def rd_sized [where n = n] wr_sized [where n = n] Let_def)

lemma off_finish_eq:
  assumes "sized_mem n s" "0 \<le> row" "row < column" "column < n"
  shows "off_finish A row column s =
    Some (s\<lparr>j_z := upd (j_z s) column row (cell (j_z s) row column),
             j_plus := upd (j_plus s) column row (cell (j_minus s) row column),
             j_minus := upd (j_minus s) column row (cell (j_plus s) row column),
             transition_probability :=
               upd (upd (transition_probability s) row column
                      (tp_value A (cell (j_z s) row column) (cell (j_plus s) row column)
                         (cell (j_minus s) row column)))
                 column row
                 (tp_value A (cell (j_z s) row column) (cell (j_plus s) row column)
                    (cell (j_minus s) row column))\<rparr>)"
  using assms
  by (simp add: off_finish_def sized_mem_def rd_sized [where n = n] wr_sized [where n = n] sized_upd cell_upd [where n = n])

lemma cell_upd_same:
  "sized n m \<Longrightarrow> 0 \<le> r \<Longrightarrow> r < n \<Longrightarrow> 0 \<le> c \<Longrightarrow> c < n \<Longrightarrow> cell (upd m r c v) r c = v"
  by (simp add: cell_upd)

lemma diag_loop_eq:
  assumes s: "sized_mem n s" and row: "0 \<le> row" "row < n"
  shows "for_loop 0 (n - 1) (diag_step A j sq row) s =
    Some (s\<lparr>j_z := upd (j_z s) row row
               (accumulate (\<lambda>i. jz_diag_add A j (cell (eigenfunctions s) i row) i)
                  (cell (j_z s) row row) (n - 1)),
             j_plus := upd (j_plus s) row row
               (accumulate (\<lambda>i. jp_diag_add A j sq (cell (eigenfunctions s) (i + 1) row)
                     (cell (eigenfunctions s) i row) i)
                  (cell (j_plus s) row row) (n - 1))\<rparr>)"
proof -
  define fz where "fz = (\<lambda>i. jz_diag_add A j (cell (eigenfunctions s) i row) i)"
  define fp where "fp = (\<lambda>i. jp_diag_add A j sq (cell (eigenfunctions s) (i + 1) row)
                     (cell (eigenfunctions s) i row) i)"
  define I where "I = (\<lambda>k t. t = s\<lparr>j_z := upd (j_z s) row row (accumulate fz (cell (j_z s) row row) k),
             j_plus := upd (j_plus s) row row (accumulate fp (cell (j_plus s) row row) k)\<rparr>)"
  have sz: "sized n (j_z s)" "sized n (j_plus s)"
    using s by (simp_all add: sized_mem_def)
  have "\<exists>t. for_loop 0 (n - 1) (diag_step A j sq row) s = Some t \<and> I (n - 1) t"
  proof (rule for_loop_rule)
    show "I 0 s" by (simp add: I_def accumulate_0 upd_cell)
    show "0 \<le> n - 1" using row by simp
  next
    fix k t
    assume k: "0 \<le> k" "k < n - 1" and "I k t"
    then have t: "t = s\<lparr>j_z := upd (j_z s) row row (accumulate fz (cell (j_z s) row row) k),
             j_plus := upd (j_plus s) row row (accumulate fp (cell (j_plus s) row row) k)\<rparr>"
      by (simp add: I_def)
    have st: "sized_mem n t"
      using s by (simp add: t sized_mem_def sized_upd)
    show "\<exists>t'. diag_step A j sq row k t = Some t' \<and> I (k + 1) t'"
      using k row sz
      by (simp add: diag_step_eq [OF st row k] I_def accumulate_step)
         (simp add: t upd_upd cell_upd_same [where n = n] fz_def fp_def)
  qed
  then show ?thesis by (simp add: I_def fz_def fp_def)
qed

lemma off_loop_eq:
  assumes s: "sized_mem n s" and row: "0 \<le> row" "row < column" "column < n"
  shows "for_loop 0 (n - 1) (off_step A j sq row column) s =
    Some (s\<lparr>j_z := upd (j_z s) row column
               (accumulate (\<lambda>i. off_add A (cell (eigenfunctions s) i row)
                     (cell (eigenfunctions s) i column) (mqn A j i))
                  (cell (j_z s) row column) (n - 1)),
             j_plus := upd (j_plus s) row column
               (accumulate (\<lambda>i. off_add A (cell (eigenfunctions s) (i + 1) row)
                     (cell (eigenfunctions s) i column)
                     (common_root A sq (mqn A j i) (mqn A j (i + 1))))
                  (cell (j_plus s) row column) (n - 1)),
             j_minus := upd (j_minus s) row column
               (accumulate (\<lambda>i. off_add A (cell (eigenfunctions s) i row)
                     (cell (eigenfunctions s) (i + 1) column)
                     (common_root A sq (mqn A j i) (mqn A j (i + 1))))
                  (cell (j_minus s) row column) (n - 1))\<rparr>)"
proof -
  define fz where "fz = (\<lambda>i. off_add A (cell (eigenfunctions s) i row)
                     (cell (eigenfunctions s) i column) (mqn A j i))"
  define fp where "fp = (\<lambda>i. off_add A (cell (eigenfunctions s) (i + 1) row)
                     (cell (eigenfunctions s) i column)
                     (common_root A sq (mqn A j i) (mqn A j (i + 1))))"
  define fm where "fm = (\<lambda>i. off_add A (cell (eigenfunctions s) i row)
                     (cell (eigenfunctions s) (i + 1) column)
                     (common_root A sq (mqn A j i) (mqn A j (i + 1))))"
  define I where "I = (\<lambda>k t. t = s\<lparr>
      j_z := upd (j_z s) row column (accumulate fz (cell (j_z s) row column) k),
      j_plus := upd (j_plus s) row column (accumulate fp (cell (j_plus s) row column) k),
      j_minus := upd (j_minus s) row column (accumulate fm (cell (j_minus s) row column) k)\<rparr>)"
  have sz: "sized n (j_z s)" "sized n (j_plus s)" "sized n (j_minus s)"
    using s by (simp_all add: sized_mem_def)
  have "\<exists>t. for_loop 0 (n - 1) (off_step A j sq row column) s = Some t \<and> I (n - 1) t"
  proof (rule for_loop_rule)
    show "I 0 s" by (simp add: I_def accumulate_0 upd_cell)
    show "0 \<le> n - 1" using row by simp
  next
    fix k t
    assume k: "0 \<le> k" "k < n - 1" and "I k t"
    then have t: "t = s\<lparr>
      j_z := upd (j_z s) row column (accumulate fz (cell (j_z s) row column) k),
      j_plus := upd (j_plus s) row column (accumulate fp (cell (j_plus s) row column) k),
      j_minus := upd (j_minus s) row column (accumulate fm (cell (j_minus s) row column) k)\<rparr>"
      by (simp add: I_def)
    have st: "sized_mem n t"
      using s by (simp add: t sized_mem_def sized_upd)
    show "\<exists>t'. off_step A j sq row column k t = Some t' \<and> I (k + 1) t'"
      using k row sz
      by (simp add: off_step_eq [OF st row k] I_def accumulate_step)
         (simp add: t upd_upd cell_upd_same [where n = n] fz_def fp_def fm_def)
  qed
  then show ?thesis by (simp add: I_def fz_def fp_def fm_def)
qed

lemma column_body_eq:
  assumes s: "sized_mem n s" and row: "0 \<le> row" "row < column" "column < n"
  shows "column_body A j sq n row column s =
    Some (s\<lparr>
      j_z := upd (upd (j_z s) row column
                 (jz_off A (eigenfunctions s) j n row column (cell (j_z s) row column)))
               column row (jz_off A (eigenfunctions s) j n row column (cell (j_z s) row column)),
      j_plus := upd (upd (j_plus s) row column
                 (jp_off A (eigenfunctions s) j sq n row column (cell (j_plus s) row column)))
               column row (jm_off A (eigenfunctions s) j sq n row column (cell (j_minus s) row column)),
      j_minus := upd (upd (j_minus s) row column
                 (jm_off A (eigenfunctions s) j sq n row column (cell (j_minus s) row column)))
               column row (jp_off A (eigenfunctions s) j sq n row column (cell (j_plus s) row column)),
      transition_probability :=
        upd (upd (transition_probability s) row column
               (tp_value A
                  (jz_off A (eigenfunctions s) j n row column (cell (j_z s) row column))
                  (jp_off A (eigenfunctions s) j sq n row column (cell (j_plus s) row column))
                  (jm_off A (eigenfunctions s) j sq n row column (cell (j_minus s) row column))))
          column row
               (tp_value A
                  (jz_off A (eigenfunctions s) j n row column (cell (j_z s) row column))
                  (jp_off A (eigenfunctions s) j sq n row column (cell (j_plus s) row column))
                  (jm_off A (eigenfunctions s) j sq n row column (cell (j_minus s) row column)))\<rparr>)"
proof -
  let ?s1 = "s\<lparr>j_z := upd (j_z s) row column
      (off_add A (cell (eigenfunctions s) (n - 1) row) (cell (eigenfunctions s) (n - 1) column)
         (mqn A j (n - 1)) (cell (j_z s) row column))\<rparr>"
  have sz: "sized n (j_z s)" "sized n (j_plus s)" "sized n (j_minus s)"
    using s by (simp_all add: sized_mem_def)
  have s1: "sized_mem n ?s1"
    using s by (rule sized_mem_upds)
  obtain s2 where l: "for_loop 0 (n - 1) (off_step A j sq row column) ?s1 = Some s2"
    and s2: "sized_mem n s2"
    using s1 by (simp add: off_loop_eq [OF s1 row] sized_mem_def sized_upd)
  show ?thesis
    unfolding column_body_def off_top_eq [OF s row]
    using row sz l s2
    apply (simp add: off_finish_eq [OF s2 row])
    apply (simp add: off_loop_eq [OF s1 row] upd_upd cell_upd_same [where n = n]
        jz_off_def jp_off_def jm_off_def)
    apply (auto simp: upd_upd cell_upd_same [where n = n] sized_upd)
    done
qed

lemma agrees_cell: "sized n m \<Longrightarrow> agrees n m (cell m)"
  by (simp add: agrees_def)

lemma agrees_sized: "agrees n m f \<Longrightarrow> sized n m"
  by (simp add: agrees_def)

lemma agrees_at:
  "agrees n m f \<Longrightarrow> 0 \<le> r \<Longrightarrow> r < n \<Longrightarrow> 0 \<le> c \<Longrightarrow> c < n \<Longrightarrow> cell m r c = f r c"
  by (simp add: agrees_def)

lemma agrees_upd:
  assumes "agrees n m f" "0 \<le> r1" "r1 < n" "0 \<le> c1" "c1 < n"
    and "\<And>r c. 0 \<le> r \<Longrightarrow> r < n \<Longrightarrow> 0 \<le> c \<Longrightarrow> c < n \<Longrightarrow>
           g r c = (if r = r1 \<and> c = c1 then v1 else f r c)"
  shows "agrees n (upd m r1 c1 v1) g"
  using assms by (simp add: agrees_def sized_upd cell_upd [where n = n])

lemma agrees_upd2:
  assumes "agrees n m f" "0 \<le> r1" "r1 < n" "0 \<le> c1" "c1 < n"
    "0 \<le> r2" "r2 < n" "0 \<le> c2" "c2 < n"
    and "\<And>r c. 0 \<le> r \<Longrightarrow> r < n \<Longrightarrow> 0 \<le> c \<Longrightarrow> c < n \<Longrightarrow>
           g r c = (if r = r2 \<and> c = c2 then v2 else if r = r1 \<and> c = c1 then v1 else f r c)"
  shows "agrees n (upd (upd m r1 c1 v1) r2 c2 v2) g"
  using assms by (simp add: agrees_def sized_upd cell_upd [where n = n])

lemma col_inv_step:
  assumes s: "sized_mem n s" and row: "0 \<le> row" and k: "row < k" "k < n"
    and inv: "col_inv A s j sq n row k t"
  shows "\<exists>t'. column_body A j sq n row k t = Some t' \<and> col_inv A s j sq n row (k + 1) t'"
proof -
  have e: "eigenfunctions t = eigenfunctions s"
    and az: "agrees n (j_z t) (col_jz A s j n row k)"
    and ap: "agrees n (j_plus t) (col_jp A s j sq n row k)"
    and am: "agrees n (j_minus t) (col_jm A s j sq n row k)"
    and at: "agrees n (transition_probability t) (col_tp A s j sq n row k)"
    using inv by (simp_all add: col_inv_def)
  have st: "sized_mem n t"
    using s az ap am at by (simp add: sized_mem_def e agrees_sized)
  have z: "cell (j_z t) row k = cell (j_z s) row k"
    using agrees_at [OF az, of row k] row k by (simp add: col_jz_def)
  have p: "cell (j_plus t) row k = cell (j_plus s) row k"
    using agrees_at [OF ap, of row k] row k by (simp add: col_jp_def)
  have m: "cell (j_minus t) row k = cell (j_minus s) row k"
    using agrees_at [OF am, of row k] row k by (simp add: col_jm_def)
  have "agrees n (j_z (the (column_body A j sq n row k t))) (col_jz A s j n row (k + 1))"
    using row k by (simp add: column_body_eq [OF st row k] e z)
      (rule agrees_upd2 [OF az], auto simp: col_jz_def)
  moreover
  have "agrees n (j_plus (the (column_body A j sq n row k t))) (col_jp A s j sq n row (k + 1))"
    using row k by (simp add: column_body_eq [OF st row k] e p m)
      (rule agrees_upd2 [OF ap], auto simp: col_jp_def)
  moreover
  have "agrees n (j_minus (the (column_body A j sq n row k t))) (col_jm A s j sq n row (k + 1))"
    using row k by (simp add: column_body_eq [OF st row k] e p m)
      (rule agrees_upd2 [OF am], auto simp: col_jm_def)
  moreover
  have "agrees n (transition_probability (the (column_body A j sq n row k t)))
          (col_tp A s j sq n row (k + 1))"
    using row k by (simp add: column_body_eq [OF st row k] e z p m)
      (rule agrees_upd2 [OF at], auto simp: col_tp_def tp_off_def)
  ultimately show ?thesis
    by (simp add: column_body_eq [OF st row k] col_inv_def e)
qed

lemma column_loop:
  assumes s: "sized_mem n s" and row: "0 \<le> row" "row < n"
  shows "\<exists>t. for_loop (row + 1) n (column_body A j sq n row) s = Some t \<and>
             col_inv A s j sq n row n t"
proof (rule for_loop_rule [where I = "col_inv A s j sq n row"])
  show "col_inv A s j sq n row (row + 1) s"
    using s by (auto simp: col_inv_def agrees_def sized_mem_def
        col_jz_def col_jp_def col_jm_def col_tp_def)
  show "row + 1 \<le> n" using row by simp
next
  fix k t
  assume "row + 1 \<le> k" "k < n" "col_inv A s j sq n row k t"
  then show "\<exists>t'. column_body A j sq n row k t = Some t' \<and> col_inv A s j sq n row (k + 1) t'"
    using col_inv_step [OF s row(1), of k A j sq t] by simp
qed

lemma row_body_spec:
  assumes s: "sized_mem n s" and row: "0 \<le> row" "row < n"
  shows "\<exists>t. row_body A j sq n row s = Some t \<and>
           eigenfunctions t = eigenfunctions s \<and>
           agrees n (j_z t) (row_jz A s j n row) \<and>
           agrees n (j_plus t) (row_jp A s j sq n row) \<and>
           agrees n (j_minus t) (row_jm A s j sq n row) \<and>
           agrees n (transition_probability t) (row_tp A s j sq n row)"
proof -
  define zd where "zd = jz_diag A (eigenfunctions s) j n row (cell (j_z s) row row)"
  define pd where "pd = jp_diag A (eigenfunctions s) j sq n row (cell (j_plus s) row row)"
  define s1 where "s1 = s\<lparr>j_z := upd (j_z s) row row
      (jz_diag_add A j (cell (eigenfunctions s) (n - 1) row) (n - 1) (cell (j_z s) row row))\<rparr>"
  define s3 where "s3 = s\<lparr>j_z := upd (j_z s) row row zd, j_plus := upd (j_plus s) row row pd,
    j_minus := upd (j_minus s) row row pd\<rparr>"
  have sz: "sized n (j_z s)" "sized n (j_plus s)" "sized n (j_minus s)"
    "sized n (transition_probability s)" "sized n (eigenfunctions s)"
    using s by (simp_all add: sized_mem_def)
  have s1: "sized_mem n s1"
    unfolding s1_def using s by (rule sized_mem_upds)
  have l: "for_loop 0 (n - 1) (diag_step A j sq row) s1 =
      Some (s\<lparr>j_z := upd (j_z s) row row zd, j_plus := upd (j_plus s) row row pd\<rparr>)"
    using row sz
    by (simp add: diag_loop_eq [OF s1 row])
       (simp add: s1_def upd_upd cell_upd_same [where n = n] zd_def pd_def jz_diag_def jp_diag_def)
  have s2: "sized_mem n (s\<lparr>j_z := upd (j_z s) row row zd, j_plus := upd (j_plus s) row row pd\<rparr>)"
    using sz by (simp add: sized_mem_def sized_upd)
  have s3: "sized_mem n s3"
    using sz by (simp add: s3_def sized_mem_def sized_upd)
  have body: "row_body A j sq n row s = for_loop (row + 1) n (column_body A j sq n row) s3"
    using row sz
    by (simp add: row_body_def diag_top_eq [OF s row] s1_def [symmetric] l diag_copy_eq [OF s2 row]
        s3_def cell_upd_same [where n = n])
  obtain t where t: "for_loop (row + 1) n (column_body A j sq n row) s3 = Some t"
    and inv: "col_inv A s3 j sq n row n t"
    using column_loop [OF s3 row] by blast
  have c3: "\<And>r c. 0 \<le> r \<Longrightarrow> r < n \<Longrightarrow> 0 \<le> c \<Longrightarrow> c < n \<Longrightarrow>
      cell (j_z s3) r c = (if r = row \<and> c = row then zd else cell (j_z s) r c) \<and>
      cell (j_plus s3) r c = (if r = row \<and> c = row then pd else cell (j_plus s) r c) \<and>
      cell (j_minus s3) r c = (if r = row \<and> c = row then pd else cell (j_minus s) r c)"
    using row sz by (simp add: s3_def cell_upd [where n = n])
  have e3: "eigenfunctions s3 = eigenfunctions s" "transition_probability s3 = transition_probability s"
    by (simp_all add: s3_def)
  have "agrees n (j_z t) (row_jz A s j n row)"
    using inv row by (auto simp: col_inv_def agrees_def col_jz_def row_jz_def c3 e3 zd_def)
  moreover have "agrees n (j_plus t) (row_jp A s j sq n row)"
    using inv row by (auto simp: col_inv_def agrees_def col_jp_def row_jp_def c3 e3 pd_def)
  moreover have "agrees n (j_minus t) (row_jm A s j sq n row)"
    using inv row by (auto simp: col_inv_def agrees_def col_jm_def row_jm_def c3 e3 pd_def)
  moreover have "agrees n (transition_probability t) (row_tp A s j sq n row)"
    using inv row
    by (auto simp: col_inv_def agrees_def col_tp_def row_tp_def tp_off_def c3 e3)
  moreover have "eigenfunctions t = eigenfunctions s"
    using inv by (simp add: col_inv_def e3)
  ultimately show ?thesis
    by (simp add: body t)
qed

lemma agrees_trans:
  assumes "agrees n m f"
    and "\<And>r c. 0 \<le> r \<Longrightarrow> r < n \<Longrightarrow> 0 \<le> c \<Longrightarrow> c < n \<Longrightarrow> f r c = g r c"
  shows "agrees n m g"
  using assms by (simp add: agrees_def)

lemma row_inv_step:
  assumes s: "sized_mem n s" and k: "0 \<le> k" "k < n"
    and inv: "row_inv A s j sq n k t"
  shows "\<exists>t'. row_body A j sq n k t = Some t' \<and> row_inv A s j sq n (k + 1) t'"
proof -
  have e: "eigenfunctions t = eigenfunctions s"
    and az: "agrees n (j_z t) (\<lambda>r c. if min r c < k then final_jz A s j n r c else cell (j_z s) r c)"
    and ap: "agrees n (j_plus t)
       (\<lambda>r c. if min r c < k then final_jp A s j sq n r c else cell (j_plus s) r c)"
    and am: "agrees n (j_minus t)
       (\<lambda>r c. if min r c < k then final_jm A s j sq n r c else cell (j_minus s) r c)"
    and at: "agrees n (transition_probability t)
       (\<lambda>r c. if min r c < k then final_tp A s j sq n r c
              else cell (transition_probability s) r c)"
    using inv by (simp_all add: row_inv_def)
  have st: "sized_mem n t"
    using s az ap am at by (simp add: sized_mem_def e agrees_sized)
  obtain t' where t': "row_body A j sq n k t = Some t'"
    and e': "eigenfunctions t' = eigenfunctions t"
    and az': "agrees n (j_z t') (row_jz A t j n k)"
    and ap': "agrees n (j_plus t') (row_jp A t j sq n k)"
    and am': "agrees n (j_minus t') (row_jm A t j sq n k)"
    and at': "agrees n (transition_probability t') (row_tp A t j sq n k)"
    using row_body_spec [OF st k, of A j sq] by blast
  have "agrees n (j_z t')
      (\<lambda>r c. if min r c < k + 1 then final_jz A s j n r c else cell (j_z s) r c)"
    using k by (intro agrees_trans [OF az'])
      (auto simp: row_jz_def final_jz_def e agrees_at [OF az])
  moreover have "agrees n (j_plus t')
      (\<lambda>r c. if min r c < k + 1 then final_jp A s j sq n r c else cell (j_plus s) r c)"
    using k by (intro agrees_trans [OF ap'])
      (auto simp: row_jp_def final_jp_def e agrees_at [OF ap] agrees_at [OF am])
  moreover have "agrees n (j_minus t')
      (\<lambda>r c. if min r c < k + 1 then final_jm A s j sq n r c else cell (j_minus s) r c)"
    using k by (intro agrees_trans [OF am'])
      (auto simp: row_jm_def final_jm_def e agrees_at [OF ap] agrees_at [OF am])
  moreover have "agrees n (transition_probability t')
      (\<lambda>r c. if min r c < k + 1 then final_tp A s j sq n r c
             else cell (transition_probability s) r c)"
    using k by (intro agrees_trans [OF at'])
      (auto simp: row_tp_def final_tp_def tp_off_def e agrees_at [OF ap] agrees_at [OF am]
        agrees_at [OF az] agrees_at [OF at])
  ultimately show ?thesis
    by (simp add: t' row_inv_def e e')
qed

lemma row_loop:
  assumes s: "sized_mem n s" and n: "0 \<le> n"
  shows "\<exists>t. for_loop 0 n (row_body A j sq n) s = Some t \<and> row_inv A s j sq n n t"
proof (rule for_loop_rule [where I = "row_inv A s j sq n"])
  show "row_inv A s j sq n 0 s"
    using s by (auto simp: row_inv_def agrees_def sized_mem_def)
  show "0 \<le> n" by (rule n)
next
  fix k t
  assume "0 \<le> k" "k < n" "row_inv A s j sq n k t"
  then show "\<exists>t'. row_body A j sq n k t = Some t' \<and> row_inv A s j sq n (k + 1) t'"
    by (rule row_inv_step [OF s])
qed

lemma get_spec:
  assumes s: "sized_mem n s" and n: "1 \<le> n"
  shows "\<exists>t. get A s j sq n = Some (cell (j_z t) 0 0, t) \<and>
           eigenfunctions t = eigenfunctions s \<and>
           agrees n (j_z t) (final_jz A s j n) \<and>
           agrees n (j_plus t) (final_jp A s j sq n) \<and>
           agrees n (j_minus t) (final_jm A s j sq n) \<and>
           agrees n (transition_probability t) (final_tp A s j sq n)"
proof -
  obtain t where t: "for_loop 0 n (row_body A j sq n) s = Some t"
    and inv: "row_inv A s j sq n n t"
    using row_loop [OF s, of A j sq] n by auto
  have e: "eigenfunctions t = eigenfunctions s"
    and az: "agrees n (j_z t) (final_jz A s j n)"
    and ap: "agrees n (j_plus t) (final_jp A s j sq n)"
    and am: "agrees n (j_minus t) (final_jm A s j sq n)"
    and at: "agrees n (transition_probability t) (final_tp A s j sq n)"
    using inv by (auto simp: row_inv_def agrees_def)
  have "get A s j sq n = Some (cell (j_z t) 0 0, t)"
    using n az ap am at
    by (simp add: get_def t rd_sized [where n = n] agrees_sized)
  with e az ap am at show ?thesis by blast
qed

section \<open>Inputs and exact arithmetic\<close>

lemma sized_zeros: "0 \<le> n \<Longrightarrow> sized n (zeros n)"
  by (simp add: sized_def zeros_def)

lemma cell_zeros: "0 \<le> r \<Longrightarrow> r < n \<Longrightarrow> 0 \<le> c \<Longrightarrow> c < n \<Longrightarrow> cell (zeros n) r c = 0"
  by (simp add: cell_def zeros_def)

lemma sized_identity: "0 \<le> n \<Longrightarrow> sized n (identity n)"
  by (auto simp: sized_def identity_def)

lemma cell_identity:
  "0 \<le> r \<Longrightarrow> r < n \<Longrightarrow> 0 \<le> c \<Longrightarrow> c < n \<Longrightarrow> cell (identity n) r c = (if r = c then 1 else 0)"
  by (simp add: cell_def identity_def nth_upto)

lemma sized_negate_column: "sized n e \<Longrightarrow> sized n (negate_column k e)"
  by (auto simp: sized_def negate_column_def)

lemma cell_negate_column:
  "sized n e \<Longrightarrow> 0 \<le> r \<Longrightarrow> r < n \<Longrightarrow> 0 \<le> c \<Longrightarrow> c < n \<Longrightarrow> 0 \<le> k \<Longrightarrow>
   cell (negate_column k e) r c = (if c = k then - cell e r c else cell e r c)"
  by (auto simp: sized_def cell_def negate_column_def nth_list_update)

lemma sized_mem_zeroed: "0 \<le> n \<Longrightarrow> sized n e \<Longrightarrow> sized_mem n (zeroed n e)"
  by (simp add: sized_mem_def zeroed_def sized_zeros)

lemma for_loop_run: "i < n \<Longrightarrow> for_loop i n body s =
    (case body i s of None \<Rightarrow> None | Some s' \<Rightarrow> for_loop (i + 1) n body s')"
  by (subst for_loop.simps) simp

lemma for_loop_exit: "\<not> i < n \<Longrightarrow> for_loop i n body s = Some s"
  by (subst for_loop.simps) simp

lemma real_arith_simps:
  "f_of_int real_arith = of_int" "d_of_int real_arith = of_int"
  "to_d real_arith = (\<lambda>x. x)" "to_f real_arith = (\<lambda>x. x)"
  "f_add real_arith = (+)" "f_sub real_arith = (-)" "f_mul real_arith = (*)"
  "d_add real_arith = (+)" "d_mul real_arith = (*)" "d_div real_arith = (/)"
  "d_pow real_arith = pow_real" "d_sqrt real_arith = sqrt"
  by (simp_all add: real_arith_def)

lemma pow_real_2: "pow_real x 2 = x\<^sup>2"
  by (simp add: pow_real_def)

lemma jz_diag_add_real: "jz_diag_add real_arith j x i acc = acc + x\<^sup>2 * (of_int i - j)"
  by (simp add: jz_diag_add_def real_arith_simps pow_real_2)

lemma jp_diag_add_real:
  "jp_diag_add real_arith j sq x1 x0 i acc =
     acc + x1 * x0 * sqrt (sq - (of_int i - j) * (of_int i - j + 1))"
  by (simp add: jp_diag_add_def diag_root_def real_arith_simps)

lemma mqn_real: "mqn real_arith j i = of_int i - j"
  by (simp add: mqn_def real_arith_simps)

lemma off_add_real: "off_add real_arith x y w acc = acc + x * y * w"
  by (simp add: off_add_def real_arith_simps)

lemma common_root_real: "common_root real_arith sq m1 m2 = sqrt (sq - m1 * m2)"
  by (simp add: common_root_def real_arith_simps)

lemma tp_value_real: "tp_value real_arith z p m = ((2 * z)\<^sup>2 + p\<^sup>2 + m\<^sup>2) / 3"
  by (simp add: tp_value_def real_arith_simps pow_real_2)

lemma get_J_half:
  "get real_arith J_half (1 / 2) (3 / 4) 2 =
     Some (- 1 / 2,
       \<lparr> j_z = [[- 1 / 2, 0], [0, 1 / 2]], j_plus = [[0, 0], [1, 0]], j_minus = [[0, 1], [0, 0]],
         transition_probability = [[0, 1 / 3], [1 / 3, 0]],
         eigenfunctions = [[1, 0], [0, 1]] \<rparr>)"
  by (simp add: get_def J_half_def zeroed_def zeros_def identity_def for_loop_run for_loop_exit
      upto_rec1 numeral_2_eq_2
      row_body_def column_body_def diag_top_def diag_step_def diag_copy_def off_top_def
      off_step_def off_finish_def rd_def wr_def in_bounds_def cell_def upd_def
      jz_diag_add_real jp_diag_add_real mqn_real off_add_real common_root_real tp_value_real)

lemma int_upto_insert: "0 \<le> k \<Longrightarrow> {0..<k + 1} = insert k {0..<k::int}"
  by auto

lemma accumulate_add:
  fixes g :: "int \<Rightarrow> real"
  assumes "0 \<le> k"
  shows "accumulate (\<lambda>i acc. acc + g i) a k = a + (\<Sum>i = 0..<k. g i)"
  using assms
proof (induction k rule: int_ge_induct)
  case base
  show ?case by (simp add: accumulate_0)
next
  case (step i)
  then show ?case by (simp add: accumulate_step int_upto_insert)
qed

lemma real_add_funs:
  "jz_diag_add real_arith j x i = (\<lambda>acc. acc + x\<^sup>2 * (of_int i - j))"
  "jp_diag_add real_arith j sq x1 x0 i =
     (\<lambda>acc. acc + x1 * x0 * sqrt (sq - (of_int i - j) * (of_int i - j + 1)))"
  "off_add real_arith x y w = (\<lambda>acc. acc + x * y * w)"
  by (simp_all add: fun_eq_iff jz_diag_add_real jp_diag_add_real off_add_real)

lemma jz_diag_real:
  "1 \<le> n \<Longrightarrow> jz_diag real_arith e j n r z0 =
     z0 + (cell e (n - 1) r)\<^sup>2 * (of_int (n - 1) - j) +
     (\<Sum>i = 0..<n - 1. (cell e i r)\<^sup>2 * (of_int i - j))"
  by (simp add: jz_diag_def real_add_funs accumulate_add)

lemma jp_diag_real:
  "1 \<le> n \<Longrightarrow> jp_diag real_arith e j sq n r p0 =
     p0 + (\<Sum>i = 0..<n - 1. cell e (i + 1) r * cell e i r *
             sqrt (sq - (of_int i - j) * (of_int i - j + 1)))"
  by (simp add: jp_diag_def real_add_funs accumulate_add)

lemma jz_off_real:
  "1 \<le> n \<Longrightarrow> jz_off real_arith e j n r c z0 =
     z0 + cell e (n - 1) r * cell e (n - 1) c * (of_int (n - 1) - j) +
     (\<Sum>i = 0..<n - 1. cell e i r * cell e i c * (of_int i - j))"
  by (simp add: jz_off_def real_add_funs mqn_real accumulate_add)

lemma jp_off_real:
  "1 \<le> n \<Longrightarrow> jp_off real_arith e j sq n r c p0 =
     p0 + (\<Sum>i = 0..<n - 1. cell e (i + 1) r * cell e i c *
             sqrt (sq - (of_int i - j) * (of_int (i + 1) - j)))"
  by (simp add: jp_off_def real_add_funs mqn_real common_root_real accumulate_add)

lemma jm_off_real:
  "1 \<le> n \<Longrightarrow> jm_off real_arith e j sq n r c m0 =
     m0 + (\<Sum>i = 0..<n - 1. cell e i r * cell e (i + 1) c *
             sqrt (sq - (of_int i - j) * (of_int (i + 1) - j)))"
  by (simp add: jm_off_def real_add_funs mqn_real common_root_real accumulate_add)

lemma zeroed_simps:
  "j_z (zeroed n e) = zeros n" "j_plus (zeroed n e) = zeros n" "j_minus (zeroed n e) = zeros n"
  "transition_probability (zeroed n e) = zeros n" "eigenfunctions (zeroed n e) = e"
  by (simp_all add: zeroed_def)

lemma matrix_eqI:
  assumes m: "sized n m" and m': "sized n m'"
    and eq: "\<And>r c. 0 \<le> r \<Longrightarrow> r < n \<Longrightarrow> 0 \<le> c \<Longrightarrow> c < n \<Longrightarrow> cell m r c = cell m' r c"
  shows "m = m'"
proof (rule nth_equalityI)
  show "length m = length m'" using m m' by (simp add: sized_def)
next
  fix i assume i: "i < length m"
  then have i': "i < length m'" using m m' by (simp add: sized_def)
  have li: "int (length (m ! i)) = n" "int (length (m' ! i)) = n"
    using m m' i i' by (auto simp: sized_def)
  show "m ! i = m' ! i"
  proof (rule nth_equalityI)
    show "length (m ! i) = length (m' ! i)" using li by simp
  next
    fix k assume "k < length (m ! i)"
    then have "cell m (int i) (int k) = cell m' (int i) (int k)"
      using i m li by (intro eq) (auto simp: sized_def)
    then show "m ! i ! k = m' ! i ! k" by (simp add: cell_def)
  qed
qed

lemma negate_jz_diag:
  assumes "sized n e" "1 \<le> n" "0 \<le> k" "0 \<le> r" "r < n"
  shows "jz_diag real_arith (negate_column k e) j n r z0 = jz_diag real_arith e j n r z0"
proof -
  have "(\<Sum>i = 0..<n - 1. (cell (negate_column k e) i r)\<^sup>2 * (of_int i - j)) =
      (\<Sum>i = 0..<n - 1. (cell e i r)\<^sup>2 * (of_int i - j))"
    using assms by (intro sum.cong) (auto simp: cell_negate_column)
  then show ?thesis
    using assms by (simp add: jz_diag_real cell_negate_column)
qed

lemma negate_jp_diag:
  assumes "sized n e" "1 \<le> n" "0 \<le> k" "0 \<le> r" "r < n"
  shows "jp_diag real_arith (negate_column k e) j sq n r p0 = jp_diag real_arith e j sq n r p0"
proof -
  have "(\<Sum>i = 0..<n - 1. cell (negate_column k e) (i + 1) r * cell (negate_column k e) i r *
             sqrt (sq - (of_int i - j) * (of_int i - j + 1))) =
      (\<Sum>i = 0..<n - 1. cell e (i + 1) r * cell e i r *
             sqrt (sq - (of_int i - j) * (of_int i - j + 1)))"
    using assms by (intro sum.cong) (auto simp: cell_negate_column)
  then show ?thesis
    using assms by (simp add: jp_diag_real)
qed

lemma negate_jz_off:
  assumes "sized n e" "1 \<le> n" "0 \<le> k" "0 \<le> r" "r < n" "0 \<le> c" "c < n"
  shows "jz_off real_arith (negate_column k e) j n r c 0 =
    flip k r c * jz_off real_arith e j n r c 0"
proof -
  have "(\<Sum>i = 0..<n - 1. cell (negate_column k e) i r * cell (negate_column k e) i c *
          (of_int i - j)) =
      (\<Sum>i = 0..<n - 1. flip k r c * (cell e i r * cell e i c * (of_int i - j)))"
    using assms by (intro sum.cong) (auto simp: cell_negate_column flip_def)
  then show ?thesis
    using assms
    by (simp add: jz_off_real cell_negate_column sum_distrib_left [symmetric])
       (simp add: flip_def algebra_simps)
qed

lemma negate_jp_off:
  assumes "sized n e" "1 \<le> n" "0 \<le> k" "0 \<le> r" "r < n" "0 \<le> c" "c < n"
  shows "jp_off real_arith (negate_column k e) j sq n r c 0 =
    flip k r c * jp_off real_arith e j sq n r c 0"
proof -
  have "(\<Sum>i = 0..<n - 1. cell (negate_column k e) (i + 1) r * cell (negate_column k e) i c *
          sqrt (sq - (of_int i - j) * (of_int (i + 1) - j))) =
      (\<Sum>i = 0..<n - 1. flip k r c * (cell e (i + 1) r * cell e i c *
          sqrt (sq - (of_int i - j) * (of_int (i + 1) - j))))"
    using assms by (intro sum.cong) (auto simp: cell_negate_column flip_def)
  then show ?thesis
    using assms by (simp add: jp_off_real sum_distrib_left [symmetric])
qed

lemma negate_jm_off:
  assumes "sized n e" "1 \<le> n" "0 \<le> k" "0 \<le> r" "r < n" "0 \<le> c" "c < n"
  shows "jm_off real_arith (negate_column k e) j sq n r c 0 =
    flip k r c * jm_off real_arith e j sq n r c 0"
proof -
  have "(\<Sum>i = 0..<n - 1. cell (negate_column k e) i r * cell (negate_column k e) (i + 1) c *
          sqrt (sq - (of_int i - j) * (of_int (i + 1) - j))) =
      (\<Sum>i = 0..<n - 1. flip k r c * (cell e i r * cell e (i + 1) c *
          sqrt (sq - (of_int i - j) * (of_int (i + 1) - j))))"
    using assms by (intro sum.cong) (auto simp: cell_negate_column flip_def)
  then show ?thesis
    using assms by (simp add: jm_off_real sum_distrib_left [symmetric])
qed

lemma tp_value_flip: "tp_value real_arith (flip k r c * z) (flip k r c * p) (flip k r c * m) =
    tp_value real_arith z p m"
  by (simp add: tp_value_real flip_def)

section \<open>What the result depends on\<close>

text \<open>The eigenvector matrix comes back as it went in, and the matrices keep their size.\<close>

lemma get_frame:
  assumes "1 \<le> n" and "sized_mem n s"
  shows "\<exists>ret t. get A s j squared_j n = Some (ret, t) \<and>
    eigenfunctions t = eigenfunctions s \<and> sized_mem n t"
proof -
  obtain t where g: "get A s j squared_j n = Some (cell (j_z t) 0 0, t)"
    and e: "eigenfunctions t = eigenfunctions s"
    and az: "agrees n (j_z t) (final_jz A s j n)"
    and ap: "agrees n (j_plus t) (final_jp A s j squared_j n)"
    and am: "agrees n (j_minus t) (final_jm A s j squared_j n)"
    and at: "agrees n (transition_probability t) (final_tp A s j squared_j n)"
    using get_spec [OF assms(2,1), of A j squared_j] by blast
  have "sized_mem n t"
    using assms(2) az ap am at by (simp add: sized_mem_def e agrees_sized)
  with g e show ?thesis by simp
qed

lemma mem_eqI:
  fixes t t' :: "'f mem"
  assumes "j_z t = j_z t'" "j_plus t = j_plus t'" "j_minus t = j_minus t'"
    "transition_probability t = transition_probability t'" "eigenfunctions t = eigenfunctions t'"
  shows "t = t'"
  using assms by (cases t, cases t') simp

lemma agrees_unique: "agrees n m f \<Longrightarrow> agrees n m' f \<Longrightarrow> m = m'"
  by (rule matrix_eqI [of n]) (simp_all add: agrees_def)

text \<open>The result is the same for two memories that agree on the eigenvectors, on and above
  the diagonal of \<open>j_z\<close> and \<open>j_plus\<close>, above the diagonal of \<open>j_minus\<close> and on the diagonal of
  \<open>transition_probability\<close>.\<close>

lemma get_depends:
  assumes n: "1 \<le> n" and s: "sized_mem n s" and s': "sized_mem n s'"
    and e: "eigenfunctions s' = eigenfunctions s"
    and eq: "\<And>r c. 0 \<le> r \<Longrightarrow> r \<le> c \<Longrightarrow> c < n \<Longrightarrow>
       cell (j_z s') r c = cell (j_z s) r c \<and>
       cell (j_plus s') r c = cell (j_plus s) r c \<and>
       (r < c \<longrightarrow> cell (j_minus s') r c = cell (j_minus s) r c) \<and>
       (r = c \<longrightarrow> cell (transition_probability s') r c = cell (transition_probability s) r c)"
  shows "get A s' j sq n = get A s j sq n"
proof -
  obtain t where g: "get A s j sq n = Some (cell (j_z t) 0 0, t)"
    and te: "eigenfunctions t = eigenfunctions s"
    and az: "agrees n (j_z t) (final_jz A s j n)"
    and ap: "agrees n (j_plus t) (final_jp A s j sq n)"
    and am: "agrees n (j_minus t) (final_jm A s j sq n)"
    and at: "agrees n (transition_probability t) (final_tp A s j sq n)"
    using get_spec [OF s n, of A j sq] by blast
  obtain t' where g': "get A s' j sq n = Some (cell (j_z t') 0 0, t')"
    and te': "eigenfunctions t' = eigenfunctions s'"
    and az': "agrees n (j_z t') (final_jz A s' j n)"
    and ap': "agrees n (j_plus t') (final_jp A s' j sq n)"
    and am': "agrees n (j_minus t') (final_jm A s' j sq n)"
    and at': "agrees n (transition_probability t') (final_tp A s' j sq n)"
    using get_spec [OF s' n, of A j sq] by blast
  have "agrees n (j_z t') (final_jz A s j n)"
    by (rule agrees_trans [OF az']) (use eq in \<open>auto simp: final_jz_def e\<close>)
  then have 1: "j_z t' = j_z t" using az by (rule agrees_unique)
  have "agrees n (j_plus t') (final_jp A s j sq n)"
    by (rule agrees_trans [OF ap']) (use eq in \<open>auto simp: final_jp_def e\<close>)
  then have 2: "j_plus t' = j_plus t" using ap by (rule agrees_unique)
  have "agrees n (j_minus t') (final_jm A s j sq n)"
    by (rule agrees_trans [OF am']) (use eq in \<open>auto simp: final_jm_def e\<close>)
  then have 3: "j_minus t' = j_minus t" using am by (rule agrees_unique)
  have "agrees n (transition_probability t') (final_tp A s j sq n)"
    by (rule agrees_trans [OF at']) (use eq in \<open>auto simp: final_tp_def tp_off_def e\<close>)
  then have 4: "transition_probability t' = transition_probability t"
    using at by (rule agrees_unique)
  have "t' = t"
    by (rule mem_eqI) (simp_all add: 1 2 3 4 te te' e)
  then show ?thesis by (simp add: g g')
qed

lemma get_tilted:
  "get real_arith (zeroed 2 tilted) (1 / 2) (3 / 4) 2 =
     Some (7 / 50,
       \<lparr> j_z = [[7 / 50, - 12 / 25], [- 12 / 25, - 7 / 50]],
         j_plus = [[- 12 / 25, - 16 / 25], [9 / 25, 12 / 25]],
         j_minus = [[- 12 / 25, 9 / 25], [- 16 / 25, 12 / 25]],
         transition_probability = [[0, 913 / 1875], [913 / 1875, 0]],
         eigenfunctions = tilted \<rparr>)"
  by (simp add: get_def tilted_def zeroed_def zeros_def for_loop_run for_loop_exit
      numeral_2_eq_2
      row_body_def column_body_def diag_top_def diag_step_def diag_copy_def off_top_def
      off_step_def off_finish_def rd_def wr_def in_bounds_def cell_def upd_def
      jz_diag_add_real jp_diag_add_real mqn_real off_add_real common_root_real tp_value_real
      power2_eq_square)

section \<open>Rounding\<close>

lemma rhe_of_int: "rhe (of_int k) = k"
  by (simp add: rhe_def)

lemma rhe_bounds: "\<lfloor>q\<rfloor> \<le> rhe q \<and> rhe q \<le> \<lfloor>q\<rfloor> + 1"
  by (simp add: rhe_def Let_def)

lemma rhe_abs_le:
  assumes "\<bar>q\<bar> < of_int N"
  shows "\<bar>rhe q\<bar> \<le> N"
proof -
  have "- of_int N < q" "q < of_int N" using assms by auto
  then have "- N \<le> \<lfloor>q\<rfloor>" "\<lfloor>q\<rfloor> < N"
    by (simp_all add: le_floor_iff floor_less_iff)
  with rhe_bounds [of q] show ?thesis by linarith
qed

lemma powr_2_int: "(2::real) powr of_int m = 2 powi m"
  by (simp add: powr_real_of_int')

lemma expo_bounds:
  assumes "x \<noteq> 0"
  shows "2 powi expo x \<le> \<bar>x\<bar>" and "\<bar>x\<bar> < 2 powi (expo x + 1)"
proof -
  have pos: "0 < \<bar>x\<bar>" using assms by simp
  have "of_int (expo x) \<le> log 2 \<bar>x\<bar>"
    by (simp add: expo_def)
  then show "2 powi expo x \<le> \<bar>x\<bar>"
    using pos by (simp add: le_log_iff powr_2_int)
  have "log 2 \<bar>x\<bar> < of_int (expo x + 1)"
    by (simp add: expo_def)
  then show "\<bar>x\<bar> < 2 powi (expo x + 1)"
    using pos by (simp only: log_less_iff [of 2 "\<bar>x\<bar>"] powr_2_int)
qed

lemma expo_less:
  assumes "x \<noteq> 0" "\<bar>x\<bar> < 2 powi m"
  shows "expo x < m"
proof (rule ccontr)
  assume "\<not> expo x < m"
  then have "(2::real) powi m \<le> 2 powi expo x"
    by (intro power_int_increasing) auto
  with expo_bounds(1) [OF assms(1)] assms(2) show False by linarith
qed

lemma expo_ge:
  assumes "2 powi m \<le> \<bar>x\<bar>"
  shows "m \<le> expo x"
proof (rule ccontr)
  assume "\<not> m \<le> expo x"
  then have "(2::real) powi (expo x + 1) \<le> 2 powi m"
    by (intro power_int_increasing) auto
  moreover have "0 < (2::real) powi m" by simp
  with assms have "0 < \<bar>x\<bar>" by linarith
  then have "x \<noteq> 0" by simp
  ultimately show False
    using expo_bounds(2) [of x] assms by linarith
qed

lemma expo_eq:
  assumes "2 powi m \<le> \<bar>x\<bar>" "\<bar>x\<bar> < 2 powi (m + 1)"
  shows "expo x = m"
proof -
  have "0 < (2::real) powi m" by simp
  with assms(1) have "0 < \<bar>x\<bar>" by linarith
  then have "x \<noteq> 0" by simp
  with expo_ge [OF assms(1)] expo_less [OF _ assms(2)] show ?thesis by simp
qed

lemma two_powi_nat: "0 \<le> p \<Longrightarrow> (2::real) powi p = 2 ^ nat p"
  by (simp add: power_int_def)

lemma rnd_0: "rnd p emin 0 = 0"
  by (simp add: rnd_def rhe_def)

lemma rnd_representable_id:
  assumes p: "1 \<le> p" and r: "representable p emin y"
  shows "rnd p emin y = y"
proof (cases "y = 0")
  case True
  then show ?thesis by (simp add: rnd_0)
next
  case False
  from r obtain k a where y: "y = of_int k * 2 powi a"
    and k: "\<bar>k\<bar> < 2 ^ nat p" and a: "emin - (p - 1) \<le> a"
    by (auto simp: representable_def)
  have "\<bar>y\<bar> = of_int \<bar>k\<bar> * 2 powi a"
    by (simp add: y abs_mult)
  also have "\<dots> < of_int (2 ^ nat p) * 2 powi a"
    using k by (intro mult_strict_right_mono) (simp_all del: of_int_power)
  also have "\<dots> = 2 powi (p + a)"
    using p by (simp add: power_int_add two_powi_nat)
  finally have "expo y < p + a"
    using False by (intro expo_less)
  define a' where "a' = max (expo y) emin - (p - 1)"
  have a': "a' \<le> a"
    using \<open>expo y < p + a\<close> a by (simp add: a'_def)
  have "y / 2 powi a' = of_int k * 2 powi (a - a')"
    by (simp add: y power_int_diff)
  also have "\<dots> = of_int (k * 2 ^ nat (a - a'))"
    using a' by (simp add: two_powi_nat)
  finally have "rhe (y / 2 powi a') = k * 2 ^ nat (a - a')"
    by (simp only: rhe_of_int)
  then have "of_int (rhe (y / 2 powi a')) * 2 powi a' =
      (of_int k :: real) * (2 powi (a - a') * 2 powi a')"
    using a' by (simp add: two_powi_nat)
  also have "\<dots> = y"
    by (simp add: y power_int_add [symmetric])
  finally show ?thesis
    by (simp add: rnd_def Let_def a'_def)
qed

lemma rnd_representable:
  assumes p: "1 \<le> p"
  shows "representable p emin (rnd p emin x)"
proof (cases "x = 0")
  case True
  have "(0::real) = of_int 0 * 2 powi (emin - (p - 1))" by simp
  then have "representable p emin 0"
    unfolding representable_def by (intro exI [of _ 0] exI [of _ "emin - (p - 1)"]) simp
  then show ?thesis by (simp add: True rnd_0)
next
  case False
  define a where "a = max (expo x) emin - (p - 1)"
  define K where "K = rhe (x / 2 powi a)"
  have rnd: "rnd p emin x = of_int K * 2 powi a"
    by (simp add: rnd_def Let_def a_def K_def)
  have a: "emin - (p - 1) \<le> a" by (simp add: a_def)
  have "\<bar>x\<bar> < 2 powi (expo x + 1)"
    using False by (rule expo_bounds)
  also have "\<dots> \<le> 2 powi (a + p)"
    by (intro power_int_increasing) (simp_all add: a_def)
  also have "\<dots> = 2 powi a * of_int (2 ^ nat p)"
    using p by (simp add: power_int_add two_powi_nat)
  finally have "\<bar>x / 2 powi a\<bar> < of_int (2 ^ nat p)"
    by (simp add: abs_divide divide_less_eq mult.commute del: of_int_power)
  then have K: "\<bar>K\<bar> \<le> 2 ^ nat p"
    unfolding K_def by (rule rhe_abs_le)
  show ?thesis
  proof (cases "\<bar>K\<bar> < 2 ^ nat p")
    case True
    with a show ?thesis
      unfolding representable_def rnd by blast
  next
    case False
    with K have Keq: "\<bar>K\<bar> = 2 ^ nat p" by simp
    obtain n where n: "nat p = Suc n"
      using p by (cases "nat p") auto
    have "\<bar>K\<bar> = 2 * 2 ^ n" by (simp add: Keq n)
    then obtain H where K2: "K = 2 * H" and half: "\<bar>H\<bar> = 2 ^ n"
      by (cases "K < 0") (auto intro: that [of "2 ^ n"] that [of "- (2 ^ n)"])
    have "of_int K * 2 powi a = of_int H * (2::real) powi (a + 1)"
      by (simp add: K2 power_int_add)
    moreover have "\<bar>H\<bar> < 2 ^ nat p"
      by (simp add: half n)
    moreover have "emin - (p - 1) \<le> a + 1"
      using a by simp
    ultimately show ?thesis
      unfolding representable_def rnd by blast
  qed
qed

lemma representable_mono:
  "representable p emin y \<Longrightarrow> p \<le> p' \<Longrightarrow> emin' - (p' - 1) \<le> emin - (p - 1) \<Longrightarrow>
   representable p' emin' y"
proof -
  assume r: "representable p emin y" and p: "p \<le> p'"
    and e: "emin' - (p' - 1) \<le> emin - (p - 1)"
  from r obtain k a where y: "y = of_int k * 2 powi a"
    and k: "\<bar>k\<bar> < 2 ^ nat p" and a: "emin - (p - 1) \<le> a"
    by (auto simp: representable_def)
  have "(2::int) ^ nat p \<le> 2 ^ nat p'"
    using p by (intro power_increasing) auto
  with k have "\<bar>k\<bar> < 2 ^ nat p'" by linarith
  moreover have "emin' - (p' - 1) \<le> a" using a e by linarith
  ultimately show ?thesis
    unfolding representable_def using y by blast
qed

lemma ieee_simps:
  "f_of_int ieee_arith = (\<lambda>i. fl32 (of_int i))" "d_of_int ieee_arith = (\<lambda>i. fl64 (of_int i))"
  "to_d ieee_arith = (\<lambda>a. a)"
  "to_f ieee_arith = (\<lambda>a. case a of None \<Rightarrow> None | Some x \<Rightarrow> fl32 x)"
  "f_add ieee_arith = lift2 fl32 (+)" "f_sub ieee_arith = lift2 fl32 (-)"
  "f_mul ieee_arith = lift2 fl32 (*)"
  "d_add ieee_arith = lift2 fl64 (+)" "d_mul ieee_arith = lift2 fl64 (*)"
  "d_div ieee_arith = ieee_div" "d_pow ieee_arith = ieee_pow" "d_sqrt ieee_arith = ieee_sqrt"
  by (simp_all add: ieee_arith_def)

lemma fl32_float32: "fl32 x \<noteq> None \<Longrightarrow> float32 (fl32 x)"
  using rnd_representable [of 24 "- 126" x]
  by (auto simp: fl32_def fin_def float32_def split: if_splits)

lemma fl32_id: "float32 (Some x) \<Longrightarrow> fl32 x = Some x"
  by (simp add: float32_def fl32_def fin_def rnd_representable_id)

lemma fl64_id:
  assumes "float32 (Some x)"
  shows "fl64 x = Some x"
proof -
  from assms have r: "representable 24 (- 126) x" and b: "\<bar>x\<bar> < 2 powi 128"
    by (simp_all add: float32_def)
  have "representable 53 (- 1022) x"
    using r by (rule representable_mono) simp_all
  then have "rnd 53 (- 1022) x = x"
    by (intro rnd_representable_id) simp_all
  moreover have "(2::real) powi 128 \<le> 2 powi 1024"
    by (intro power_int_increasing) simp_all
  ultimately show ?thesis
    using b by (simp add: fl64_def fin_def)
qed

lemma float32_of_int:
  assumes "\<bar>k\<bar> < 2 ^ 24"
  shows "float32 (Some (of_int k))"
proof -
  have "representable 24 (- 126) (of_int k)"
    unfolding representable_def using assms
    by (intro exI [of _ k] exI [of _ 0]) simp
  moreover have "\<bar>of_int k :: real\<bar> < 2 ^ 24"
    using assms by (metis of_int_abs of_int_less_numeral_power_cancel_iff)
  then have "\<bar>of_int k :: real\<bar> < 2 powi 128"
    by (simp add: power_int_def)
  ultimately show ?thesis by (simp add: float32_def)
qed

lemma float32_0: "float32 (Some 0)" and float32_1: "float32 (Some 1)"
  and float32_2: "float32 (Some 2)"
  using float32_of_int [of 0] float32_of_int [of 1] float32_of_int [of 2] by simp_all

lemma lift2_float32: "lift2 fl32 op a b \<noteq> None \<Longrightarrow> float32 (lift2 fl32 op a b)"
  by (auto simp: lift2_def fl32_float32 split: option.splits)

lemma mqn_float32: "mqn ieee_arith j i \<noteq> None \<Longrightarrow> float32 (mqn ieee_arith j i)"
  by (simp add: mqn_def ieee_simps lift2_float32)

lemma ieee_jz_diag_add_0:
  assumes "float32 acc" "mqn ieee_arith j i \<noteq> None"
  shows "jz_diag_add ieee_arith j (Some 0) i acc = acc"
proof -
  from assms(1) obtain a where a: "acc = Some a" by (auto simp: float32_def)
  from assms(2) obtain m where m: "f_sub ieee_arith (f_of_int ieee_arith i) j = Some m"
    by (auto simp: mqn_def)
  show ?thesis
    using assms(1)
    by (simp add: jz_diag_add_def m)
       (simp add: ieee_simps ieee_pow_def lift2_def pow_real_2 a
        fl64_id [OF float32_0] fl64_id [OF float32_2] fl64_id fl32_id)
qed

lemma ieee_jz_diag_add_1:
  assumes "mqn ieee_arith j i \<noteq> None"
  shows "jz_diag_add ieee_arith j (Some 1) i (Some 0) = mqn ieee_arith j i"
proof -
  from assms obtain m where m: "mqn ieee_arith j i = Some m" by auto
  with mqn_float32 [OF assms] have f: "float32 (Some m)" by simp
  show ?thesis
    using m
    by (simp add: jz_diag_add_def mqn_def)
       (simp add: ieee_simps ieee_pow_def lift2_def pow_real_2
        fl64_id [OF float32_1] fl64_id [OF float32_2] fl64_id [OF f] fl32_id [OF f])
qed

lemma ieee_off_add_0:
  assumes "w \<noteq> None" "x = Some 0 \<or> y = Some 0" "x = Some 0 \<or> x = Some 1"
    "y = Some 0 \<or> y = Some 1"
  shows "off_add ieee_arith x y w (Some 0) = Some 0"
  using assms
  by (auto simp: off_add_def ieee_simps lift2_def fl32_id [OF float32_0])

lemma accumulate_induct:
  assumes "0 \<le> k" and "P 0 a"
    and "\<And>i acc. 0 \<le> i \<Longrightarrow> i < k \<Longrightarrow> P i acc \<Longrightarrow> P (i + 1) (f i acc)"
  shows "P k (accumulate f a k)"
proof -
  have "k' \<le> k \<longrightarrow> P k' (accumulate f a k')" if "0 \<le> k'" for k'
    using that
  proof (induction k' rule: int_ge_induct)
    case base
    show ?case using assms(2) by (simp add: accumulate_0)
  next
    case (step i)
    then show ?case using assms(3) [of i] by (simp add: accumulate_step)
  qed
  with assms(1) show ?thesis by simp
qed

lemma sized_const_matrix: "0 \<le> n \<Longrightarrow> sized n (const_matrix n z)"
  by (simp add: sized_def const_matrix_def)

lemma cell_const_matrix:
  "0 \<le> r \<Longrightarrow> r < n \<Longrightarrow> 0 \<le> c \<Longrightarrow> c < n \<Longrightarrow> cell (const_matrix n z) r c = z"
  by (simp add: cell_def const_matrix_def)

lemma sized_unit_matrix: "0 \<le> n \<Longrightarrow> sized n (unit_matrix n z u)"
  by (auto simp: sized_def unit_matrix_def)

lemma cell_unit_matrix:
  "0 \<le> r \<Longrightarrow> r < n \<Longrightarrow> 0 \<le> c \<Longrightarrow> c < n \<Longrightarrow>
   cell (unit_matrix n z u) r c = (if r = c then u else z)"
  by (simp add: cell_def unit_matrix_def nth_upto)

lemma cleared_simps:
  "j_z (cleared n z e) = const_matrix n z" "j_plus (cleared n z e) = const_matrix n z"
  "j_minus (cleared n z e) = const_matrix n z"
  "transition_probability (cleared n z e) = const_matrix n z" "eigenfunctions (cleared n z e) = e"
  by (simp_all add: cleared_def)

lemma sized_mem_cleared: "0 \<le> n \<Longrightarrow> sized n e \<Longrightarrow> sized_mem n (cleared n z e)"
  by (simp add: sized_mem_def cleared_def sized_const_matrix)

lemma ieee_identity_jz_diag:
  assumes n: "1 \<le> n" and r: "0 \<le> r" "r < n"
    and fin: "\<And>i. 0 \<le> i \<Longrightarrow> i < n \<Longrightarrow> mqn ieee_arith j i \<noteq> None"
  shows "jz_diag ieee_arith (unit_matrix n (Some 0) (Some 1)) j n r (Some 0) = mqn ieee_arith j r"
proof -
  let ?e = "unit_matrix n (Some 0) (Some 1) :: real option matrix"
  let ?f = "\<lambda>i. jz_diag_add ieee_arith j (cell ?e i r) i"
  let ?a = "jz_diag_add ieee_arith j (cell ?e (n - 1) r) (n - 1) (Some 0)"
  let ?P = "\<lambda>k acc. acc = (if r < k \<or> r = n - 1 then mqn ieee_arith j r else Some 0)"
  have top: "?P 0 ?a"
    using n r fin [of "n - 1"]
    by (simp add: cell_unit_matrix ieee_jz_diag_add_1 ieee_jz_diag_add_0 float32_0)
  have "?P (n - 1) (accumulate ?f ?a (n - 1))"
  proof (rule accumulate_induct [where P = ?P])
    show "0 \<le> n - 1" using n by simp
    show "?P 0 ?a" by (rule top)
  next
    fix i acc
    assume i: "0 \<le> i" "i < n - 1" and acc: "?P i acc"
    have m: "mqn ieee_arith j i \<noteq> None" "mqn ieee_arith j r \<noteq> None"
      using fin i r by simp_all
    show "?P (i + 1) (?f i acc)"
    proof (cases "i = r")
      case True
      with acc i have "acc = Some 0" by simp
      with True i r m show ?thesis
        by (simp add: cell_unit_matrix ieee_jz_diag_add_1)
    next
      case False
      have "float32 acc"
        using acc m(2) by (simp add: float32_0 mqn_float32)
      with False i r m acc show ?thesis
        by (simp add: cell_unit_matrix ieee_jz_diag_add_0)
    qed
  qed
  then show ?thesis
    using r by (simp add: jz_diag_def) auto
qed

lemma ieee_identity_jz_off:
  assumes n: "1 \<le> n" and r: "0 \<le> r" "r < n" and c: "0 \<le> c" "c < n" and rc: "r \<noteq> c"
    and fin: "\<And>i. 0 \<le> i \<Longrightarrow> i < n \<Longrightarrow> mqn ieee_arith j i \<noteq> None"
  shows "jz_off ieee_arith (unit_matrix n (Some 0) (Some 1)) j n r c (Some 0) = Some 0"
proof -
  let ?e = "unit_matrix n (Some 0) (Some 1) :: real option matrix"
  let ?f = "\<lambda>i. off_add ieee_arith (cell ?e i r) (cell ?e i c) (mqn ieee_arith j i)"
  let ?a = "off_add ieee_arith (cell ?e (n - 1) r) (cell ?e (n - 1) c) (mqn ieee_arith j (n - 1))
    (Some 0)"
  let ?P = "\<lambda>k::int. \<lambda>acc. acc = Some (0::real)"
  have top: "?a = Some 0"
    using n r c rc fin [of "n - 1"]
    by (intro ieee_off_add_0) (auto simp: cell_unit_matrix)
  have "?P (n - 1) (accumulate ?f ?a (n - 1))"
  proof (rule accumulate_induct [where P = ?P])
    show "0 \<le> n - 1" using n by simp
    show "?a = Some 0" by (rule top)
  next
    fix i acc
    assume i: "0 \<le> i" "i < n - 1" and acc: "acc = Some (0::real)"
    have "off_add ieee_arith (cell ?e i r) (cell ?e i c) (mqn ieee_arith j i) (Some 0) = Some 0"
      using i r c rc fin [of i]
      by (intro ieee_off_add_0) (auto simp: cell_unit_matrix)
    then show "?f i acc = Some 0" by (simp add: acc)
  qed
  then show ?thesis by (simp add: jz_off_def)
qed

lemma ieee_identity_jz:
  assumes n: "1 \<le> n"
    and fin: "\<And>i. 0 \<le> i \<Longrightarrow> i < n \<Longrightarrow> mqn ieee_arith j i \<noteq> None"
  shows "\<exists>ret t.
    get ieee_arith (cleared n (Some 0) (unit_matrix n (Some 0) (Some 1))) j squared_j n =
      Some (ret, t) \<and>
    (\<forall>r c. 0 \<le> r \<and> r < n \<and> 0 \<le> c \<and> c < n \<longrightarrow>
       cell (j_z t) r c = (if r = c then mqn ieee_arith j r else Some 0))"
proof -
  let ?s = "cleared n (Some 0) (unit_matrix n (Some 0) (Some 1)) :: real option mem"
  have s: "sized_mem n ?s"
    using n by (simp add: sized_mem_cleared sized_unit_matrix)
  obtain t where g: "get ieee_arith ?s j squared_j n = Some (cell (j_z t) 0 0, t)"
    and az: "agrees n (j_z t) (final_jz ieee_arith ?s j n)"
    using get_spec [OF s n, of ieee_arith j squared_j] by blast
  have "cell (j_z t) r c = (if r = c then mqn ieee_arith j r else Some 0)"
    if "0 \<le> r" "r < n" "0 \<le> c" "c < n" for r c
    using that n fin
    by (simp add: agrees_at [OF az] final_jz_def cleared_simps cell_const_matrix
        ieee_identity_jz_diag ieee_identity_jz_off)
  with g show ?thesis by blast
qed

lemma fl32_one_minus_tiny: "fl32 (1 - 1 / 33554432) = Some 1"
proof -
  have e: "expo (33554431 / 33554432) = - 1"
    by (rule expo_eq) (simp_all add: power_int_minus)
  have q: "33554431 / (33554432 * (2::real) powi (- 24)) = 33554431 / 2"
    by (simp add: power_int_minus)
  have r: "rhe (33554431 / 2) = 16777216"
    by (simp add: rhe_def)
  have "rnd 24 (- 126) (33554431 / 33554432) = 1"
    by (simp add: rnd_def e q r)
  then show ?thesis
    by (simp add: fl32_def fin_def power_int_def)
qed

lemma float32_tiny: "float32 (Some (- (1 / 33554432)))"
proof -
  have "(- (1 / 33554432) :: real) = of_int (- 1) * 2 powi (- 25)"
    by (simp add: power_int_minus)
  then have "representable 24 (- 126) (- (1 / 33554432))"
    unfolding representable_def by (intro exI [of _ "- 1"] exI [of _ "- 25"]) simp
  then show ?thesis
    by (simp add: float32_def power_int_def)
qed

lemma mqn_tiny:
  "mqn ieee_arith (Some (1 / 33554432)) 0 = Some (- (1 / 33554432))"
  "mqn ieee_arith (Some (1 / 33554432)) 1 = Some 1"
  using fl32_id [OF float32_tiny] fl32_one_minus_tiny
  by (simp_all add: mqn_def ieee_simps lift2_def fl32_id [OF float32_0] fl32_id [OF float32_1])

section \<open>The claims\<close>

lemma sized_mem_J_half: "sized_mem 2 J_half"
  by (simp add: J_half_def sized_mem_zeroed sized_identity)

text \<open>
  Claim C1. For every \<open>size \<ge> 1\<close> and matrices of that size, the call returns, and on
  return \<open>j_z\<close> and \<open>transition_probability\<close> are symmetric and
  \<open>j_minus[c][r] = j_plus[r][c]\<close> for all \<open>r\<close>, \<open>c\<close>, the diagonal included. This holds for
  every arithmetic and whatever the output matrices held before, so in particular for
  zero-initialised outputs and \<open>j = (size - 1) / 2\<close>.
\<close>

theorem C1_symmetry:
  assumes "1 \<le> n" and "sized_mem n s"
  shows "\<exists>ret t. get A s j squared_j n = Some (ret, t) \<and>
    (\<forall>r c. 0 \<le> r \<and> r < n \<and> 0 \<le> c \<and> c < n \<longrightarrow>
       cell (j_z t) r c = cell (j_z t) c r \<and>
       cell (transition_probability t) r c = cell (transition_probability t) c r \<and>
       cell (j_minus t) c r = cell (j_plus t) r c)"
proof -
  obtain t where g: "get A s j squared_j n = Some (cell (j_z t) 0 0, t)"
    and az: "agrees n (j_z t) (final_jz A s j n)"
    and ap: "agrees n (j_plus t) (final_jp A s j squared_j n)"
    and am: "agrees n (j_minus t) (final_jm A s j squared_j n)"
    and at: "agrees n (transition_probability t) (final_tp A s j squared_j n)"
    using get_spec [OF assms(2,1), of A j squared_j] by blast
  have "cell (j_z t) r c = cell (j_z t) c r \<and>
       cell (transition_probability t) r c = cell (transition_probability t) c r \<and>
       cell (j_minus t) c r = cell (j_plus t) r c"
    if "0 \<le> r" "r < n" "0 \<le> c" "c < n" for r c
    using that
    by (simp add: agrees_at [OF az] agrees_at [OF ap] agrees_at [OF am] agrees_at [OF at]
        final_jz_def final_jp_def final_jm_def final_tp_def)
  with g show ?thesis by blast
qed

theorem C1_symmetry_witness:
  "\<exists>ret t. get real_arith J_half (1 / 2) (3 / 4) 2 = Some (ret, t) \<and>
     cell (j_z t) 0 1 = cell (j_z t) 1 0 \<and>
     cell (transition_probability t) 0 1 = cell (transition_probability t) 1 0 \<and>
     cell (j_minus t) 1 0 = cell (j_plus t) 0 1"
proof -
  have "(1::int) \<le> 2" by simp
  from C1_symmetry [OF this sized_mem_J_half, of real_arith "1 / 2" "3 / 4"]
  obtain ret t where g: "get real_arith J_half (1 / 2) (3 / 4) 2 = Some (ret, t)"
    and sym: "\<forall>r c. 0 \<le> r \<and> r < 2 \<and> 0 \<le> c \<and> c < 2 \<longrightarrow>
       cell (j_z t) r c = cell (j_z t) c r \<and>
       cell (transition_probability t) r c = cell (transition_probability t) c r \<and>
       cell (j_minus t) c r = cell (j_plus t) r c"
    by blast
  from sym [rule_format, of 0 1] g show ?thesis by simp
qed

text \<open>
  Claim C2. For every pair \<open>r < c\<close>, on return \<open>transition_probability[r][c]\<close> is
  \<open>(pow(2 * j_z[r][c], 2) + pow(j_plus[r][c], 2) + pow(j_minus[r][c], 2)) / 3\<close>, computed in
  \<open>double\<close> from the final \<open>j_z[r][c]\<close>, \<open>j_plus[r][c]\<close> and \<open>j_minus[r][c]\<close> and stored as a
  \<open>float\<close>, and \<open>transition_probability[c][r]\<close> equals it. This holds for every arithmetic.
\<close>

theorem C2_transition_probability:
  assumes "1 \<le> n" and "sized_mem n s"
  shows "\<exists>ret t. get A s j squared_j n = Some (ret, t) \<and>
    (\<forall>r c. 0 \<le> r \<and> r < c \<and> c < n \<longrightarrow>
       cell (transition_probability t) r c =
         to_f A (d_div A
           (d_add A
              (d_add A
                 (d_pow A (to_d A (f_mul A (f_of_int A 2) (cell (j_z t) r c))) (d_of_int A 2))
                 (d_pow A (to_d A (cell (j_plus t) r c)) (d_of_int A 2)))
              (d_pow A (to_d A (cell (j_minus t) r c)) (d_of_int A 2)))
           (d_of_int A 3)) \<and>
       cell (transition_probability t) c r = cell (transition_probability t) r c)"
proof -
  obtain t where g: "get A s j squared_j n = Some (cell (j_z t) 0 0, t)"
    and az: "agrees n (j_z t) (final_jz A s j n)"
    and ap: "agrees n (j_plus t) (final_jp A s j squared_j n)"
    and am: "agrees n (j_minus t) (final_jm A s j squared_j n)"
    and at: "agrees n (transition_probability t) (final_tp A s j squared_j n)"
    using get_spec [OF assms(2,1), of A j squared_j] by blast
  have "cell (transition_probability t) r c =
         to_f A (d_div A
           (d_add A
              (d_add A
                 (d_pow A (to_d A (f_mul A (f_of_int A 2) (cell (j_z t) r c))) (d_of_int A 2))
                 (d_pow A (to_d A (cell (j_plus t) r c)) (d_of_int A 2)))
              (d_pow A (to_d A (cell (j_minus t) r c)) (d_of_int A 2)))
           (d_of_int A 3)) \<and>
       cell (transition_probability t) c r = cell (transition_probability t) r c"
    if "0 \<le> r" "r < c" "c < n" for r c
    using that
    by (simp add: agrees_at [OF az] agrees_at [OF ap] agrees_at [OF am] agrees_at [OF at]
        final_jz_def final_jp_def final_jm_def final_tp_def tp_off_def tp_value_def)
  with g show ?thesis by blast
qed

theorem C2_transition_probability_witness:
  "\<exists>ret t. get real_arith (zeroed 2 tilted) (1 / 2) (3 / 4) 2 = Some (ret, t) \<and>
     cell (j_z t) 0 1 = - 12 / 25 \<and> cell (j_plus t) 0 1 = - 16 / 25 \<and>
     cell (j_minus t) 0 1 = 9 / 25 \<and>
     cell (transition_probability t) 0 1 =
       ((2 * (- 12 / 25))\<^sup>2 + (- 16 / 25)\<^sup>2 + (9 / 25)\<^sup>2) / 3 \<and>
     cell (transition_probability t) 1 0 = cell (transition_probability t) 0 1"
proof -
  have n: "(1::int) \<le> 2" by simp
  have "sized 2 tilted"
    by (simp add: sized_def tilted_def)
  then have s: "sized_mem 2 (zeroed 2 tilted)"
    by (simp add: sized_mem_zeroed)
  from C2_transition_probability [OF n s, of real_arith "1 / 2" "3 / 4"]
  obtain ret t where g: "get real_arith (zeroed 2 tilted) (1 / 2) (3 / 4) 2 = Some (ret, t)"
    and tp: "\<forall>r c. 0 \<le> r \<and> r < c \<and> c < 2 \<longrightarrow>
       cell (transition_probability t) r c =
         to_f real_arith (d_div real_arith
           (d_add real_arith
              (d_add real_arith
                 (d_pow real_arith (to_d real_arith (f_mul real_arith (f_of_int real_arith 2)
                    (cell (j_z t) r c))) (d_of_int real_arith 2))
                 (d_pow real_arith (to_d real_arith (cell (j_plus t) r c)) (d_of_int real_arith 2)))
              (d_pow real_arith (to_d real_arith (cell (j_minus t) r c)) (d_of_int real_arith 2)))
           (d_of_int real_arith 3)) \<and>
       cell (transition_probability t) c r = cell (transition_probability t) r c"
    by blast
  have cells: "cell (j_z t) 0 1 = - 12 / 25" "cell (j_plus t) 0 1 = - 16 / 25"
    "cell (j_minus t) 0 1 = 9 / 25"
    using g by (auto simp: get_tilted cell_def)
  from tp [rule_format, of 0 1] g cells show ?thesis
    by (simp add: real_arith_simps pow_real_2)
qed



text \<open>
  Claim C4, as stated, fails in float arithmetic. For \<open>size = 2\<close> and \<open>j = 2^-25\<close>, a
  binary32 number, line 7 computes \<open>size - 1 - j\<close> as a \<open>float\<close>: \<open>1 - 2^-25\<close> lies halfway
  between two binary32 numbers and is rounded to 1. So \<open>j_z[1][1]\<close> is 1, not \<open>1 - j\<close>.
\<close>

theorem C4_counterexample:
  "get ieee_arith (cleared 2 (Some 0) (unit_matrix 2 (Some 0) (Some 1)))
      (Some (1 / 33554432)) (Some (3 / 4)) 2 \<noteq> None \<and>
   cell (j_z (snd (the (get ieee_arith (cleared 2 (Some 0) (unit_matrix 2 (Some 0) (Some 1)))
      (Some (1 / 33554432)) (Some (3 / 4)) 2)))) 1 1 = Some 1 \<and>
   cell (j_z (snd (the (get ieee_arith (cleared 2 (Some 0) (unit_matrix 2 (Some 0) (Some 1)))
      (Some (1 / 33554432)) (Some (3 / 4)) 2)))) 1 1 \<noteq> Some (1 - 1 / 33554432)"
proof -
  have n: "(1::int) \<le> 2" by simp
  have fin: "mqn ieee_arith (Some (1 / 33554432)) i \<noteq> None" if "0 \<le> i" "i < 2" for i
  proof -
    from that have "i = 0 \<or> i = 1" by auto
    then show ?thesis by (auto simp: mqn_tiny)
  qed
  from ieee_identity_jz [OF n fin, of "Some (3 / 4)"]
  obtain ret t where
    g: "get ieee_arith (cleared 2 (Some 0) (unit_matrix 2 (Some 0) (Some 1)))
      (Some (1 / 33554432)) (Some (3 / 4)) 2 = Some (ret, t)"
    and z: "\<forall>r c. 0 \<le> r \<and> r < 2 \<and> 0 \<le> c \<and> c < 2 \<longrightarrow>
       cell (j_z t) r c = (if r = c then mqn ieee_arith (Some (1 / 33554432)) r else Some 0)"
    by blast
  from z [rule_format, of 1 1] g show ?thesis
    by (simp add: mqn_tiny)
qed

text \<open>
  Claim C4, amended. In IEEE arithmetic, for every \<open>size \<ge> 1\<close> and every \<open>j\<close> for which the
  float differences \<open>(float)i - j\<close>, \<open>0 \<le> i < size\<close>, are all finite: with identity eigenvectors
  and zero-initialised outputs, \<open>j_z\<close> on return is diagonal, \<open>j_z[i][i]\<close> is the float
  \<open>(float)i - j\<close> that lines 7 and 9 compute (the conversion of \<open>i\<close> and the subtraction each
  rounded to binary32), and every off-diagonal entry of \<open>j_z\<close> is zero.
\<close>

theorem C4_identity_eigenbasis:
  assumes "1 \<le> n"
    and "\<forall>i. 0 \<le> i \<and> i < n \<longrightarrow> f_sub ieee_arith (f_of_int ieee_arith i) j \<noteq> None"
  shows "\<exists>ret t.
    get ieee_arith (cleared n (Some 0) (unit_matrix n (Some 0) (Some 1))) j squared_j n =
      Some (ret, t) \<and>
    (\<forall>r c. 0 \<le> r \<and> r < n \<and> 0 \<le> c \<and> c < n \<longrightarrow>
       cell (j_z t) r c =
         (if r = c then f_sub ieee_arith (f_of_int ieee_arith r) j else Some 0))"
proof -
  have "mqn ieee_arith j i \<noteq> None" if "0 \<le> i" "i < n" for i
    using assms(2) that by (simp add: mqn_def)
  from ieee_identity_jz [OF assms(1) this, of squared_j]
  show ?thesis
    unfolding mqn_def by blast
qed

theorem C4_identity_eigenbasis_witness:
  "\<exists>ret t.
     get ieee_arith (cleared 2 (Some 0) (unit_matrix 2 (Some 0) (Some 1)))
       (Some (1 / 33554432)) (Some (3 / 4)) 2 = Some (ret, t) \<and>
     cell (j_z t) 0 0 = Some (- (1 / 33554432)) \<and> cell (j_z t) 1 1 = Some 1 \<and>
     cell (j_z t) 0 1 = Some 0 \<and> cell (j_z t) 1 0 = Some 0"
proof -
  have n: "(1::int) \<le> 2" by simp
  have m: "f_sub ieee_arith (f_of_int ieee_arith 0) (Some (1 / 33554432)) = Some (- (1 / 33554432))"
    "f_sub ieee_arith (f_of_int ieee_arith 1) (Some (1 / 33554432)) = Some 1"
    using mqn_tiny by (simp_all add: mqn_def)
  have fin: "\<forall>i. 0 \<le> i \<and> i < 2 \<longrightarrow>
      f_sub ieee_arith (f_of_int ieee_arith i) (Some (1 / 33554432)) \<noteq> None"
  proof (intro allI impI)
    fix i :: int assume "0 \<le> i \<and> i < 2"
    then have "i = 0 \<or> i = 1" by auto
    then show "f_sub ieee_arith (f_of_int ieee_arith i) (Some (1 / 33554432)) \<noteq> None"
      using m by auto
  qed
  from C4_identity_eigenbasis [OF n fin, of "Some (3 / 4)"]
  obtain ret t where
    g: "get ieee_arith (cleared 2 (Some 0) (unit_matrix 2 (Some 0) (Some 1)))
      (Some (1 / 33554432)) (Some (3 / 4)) 2 = Some (ret, t)"
    and z: "\<forall>r c. 0 \<le> r \<and> r < 2 \<and> 0 \<le> c \<and> c < 2 \<longrightarrow>
       cell (j_z t) r c =
         (if r = c then f_sub ieee_arith (f_of_int ieee_arith r) (Some (1 / 33554432))
          else Some 0)"
    by blast
  from z [rule_format, of 0 0] z [rule_format, of 1 1] z [rule_format, of 0 1]
    z [rule_format, of 1 0] g m
  show ?thesis by simp
qed

text \<open>
  Claim C5. For every \<open>size \<ge> 1\<close> and matrices of that size the call returns: no read or
  write of the five matrices is out of bounds (every access of the model is checked, and
  one failing check makes the result \<open>None\<close>). For \<open>size = 1\<close>, \<open>j = 0\<close> and zero-initialised
  outputs, in exact arithmetic, the four output matrices still hold the single entry 0 on
  return.
\<close>

theorem C5_in_bounds:
  "(1 \<le> n \<longrightarrow> sized_mem n s \<longrightarrow> get A s j squared_j n \<noteq> None) \<and>
   (sized 1 e \<longrightarrow> get real_arith (zeroed 1 e) 0 sq 1 = Some (0, zeroed 1 e))"
proof (intro conjI impI)
  assume "1 \<le> n" "sized_mem n s"
  then show "get A s j squared_j n \<noteq> None"
    using get_spec [of n s A j squared_j] by auto
next
  assume "sized 1 e"
  then obtain x where e: "e = [[x]]"
    by (cases e; cases "hd e") (auto simp: sized_def)
  show "get real_arith (zeroed 1 e) 0 sq 1 = Some (0, zeroed 1 e)"
    by (simp add: e get_def zeroed_def zeros_def for_loop_run for_loop_exit
      row_body_def diag_top_def diag_copy_def rd_def wr_def in_bounds_def cell_def upd_def
      jz_diag_add_real)
qed

theorem C5_in_bounds_witness:
  "get real_arith J_half (1 / 2) (3 / 4) 2 \<noteq> None \<and>
   get real_arith (zeroed 1 [[1]]) 0 0 1 = Some (0, zeroed 1 [[1]])"
proof -
  have "(1::int) \<le> 2" by simp
  moreover have "sized 1 [[1::real]]" by (simp add: sized_def)
  ultimately show ?thesis
    using C5_in_bounds [of 2 J_half real_arith "1 / 2" "3 / 4" "[[1]]" 0] sized_mem_J_half
    by simp
qed

text \<open>
  Claim C6. Take zero-initialised outputs and negate column \<open>k\<close> of the eigenvector matrix.
  In exact arithmetic the second run has the same \<open>transition_probability\<close> matrix and the
  same diagonal entries of \<open>j_z\<close>, \<open>j_plus\<close> and \<open>j_minus\<close> as the first, and every off-diagonal
  entry of \<open>j_z\<close>, \<open>j_plus\<close> and \<open>j_minus\<close> in row \<open>k\<close> or column \<open>k\<close> has the opposite sign.
\<close>

theorem C6_sign_flip:
  assumes "1 \<le> n" and "sized n e" and "0 \<le> k" and "k < n"
  shows "\<exists>ret t ret' t'.
    get real_arith (zeroed n e) j squared_j n = Some (ret, t) \<and>
    get real_arith (zeroed n (negate_column k e)) j squared_j n = Some (ret', t') \<and>
    transition_probability t' = transition_probability t \<and>
    (\<forall>r c. 0 \<le> r \<and> r < n \<and> 0 \<le> c \<and> c < n \<longrightarrow>
       (r = c \<longrightarrow>
          cell (j_z t') r c = cell (j_z t) r c \<and>
          cell (j_plus t') r c = cell (j_plus t) r c \<and>
          cell (j_minus t') r c = cell (j_minus t) r c) \<and>
       (r \<noteq> c \<and> (r = k \<or> c = k) \<longrightarrow>
          cell (j_z t') r c = - cell (j_z t) r c \<and>
          cell (j_plus t') r c = - cell (j_plus t) r c \<and>
          cell (j_minus t') r c = - cell (j_minus t) r c))"
proof -
  let ?e' = "negate_column k e"
  let ?s = "zeroed n e :: real mem" and ?s' = "zeroed n ?e' :: real mem"
  have e': "sized n ?e'"
    using assms(2) by (rule sized_negate_column)
  have s: "sized_mem n ?s" and s': "sized_mem n ?s'"
    using assms(1,2) e' by (simp_all add: sized_mem_zeroed)
  obtain t where g: "get real_arith ?s j squared_j n = Some (cell (j_z t) 0 0, t)"
    and az: "agrees n (j_z t) (final_jz real_arith ?s j n)"
    and ap: "agrees n (j_plus t) (final_jp real_arith ?s j squared_j n)"
    and am: "agrees n (j_minus t) (final_jm real_arith ?s j squared_j n)"
    and at: "agrees n (transition_probability t) (final_tp real_arith ?s j squared_j n)"
    using get_spec [OF s assms(1), of real_arith j squared_j] by blast
  obtain t' where g': "get real_arith ?s' j squared_j n = Some (cell (j_z t') 0 0, t')"
    and az': "agrees n (j_z t') (final_jz real_arith ?s' j n)"
    and ap': "agrees n (j_plus t') (final_jp real_arith ?s' j squared_j n)"
    and am': "agrees n (j_minus t') (final_jm real_arith ?s' j squared_j n)"
    and at': "agrees n (transition_probability t') (final_tp real_arith ?s' j squared_j n)"
    using get_spec [OF s' assms(1), of real_arith j squared_j] by blast
  note neg = negate_jz_diag [OF assms(2,1,3)] negate_jp_diag [OF assms(2,1,3)]
    negate_jz_off [OF assms(2,1,3)] negate_jp_off [OF assms(2,1,3)]
    negate_jm_off [OF assms(2,1,3)]
  have z: "cell (j_z t') r c = (if r = c then 1 else flip k r c) * cell (j_z t) r c"
    if "0 \<le> r" "r < n" "0 \<le> c" "c < n" for r c
    using that
    by (simp add: agrees_at [OF az] agrees_at [OF az'] final_jz_def zeroed_simps cell_zeros neg)
      (simp add: flip_def)
  have p: "cell (j_plus t') r c = (if r = c then 1 else flip k r c) * cell (j_plus t) r c"
    if "0 \<le> r" "r < n" "0 \<le> c" "c < n" for r c
    using that
    by (simp add: agrees_at [OF ap] agrees_at [OF ap'] final_jp_def zeroed_simps cell_zeros neg)
      (simp add: flip_def)
  have m: "cell (j_minus t') r c = (if r = c then 1 else flip k r c) * cell (j_minus t) r c"
    if "0 \<le> r" "r < n" "0 \<le> c" "c < n" for r c
    using that
    by (simp add: agrees_at [OF am] agrees_at [OF am'] final_jm_def zeroed_simps cell_zeros neg)
      (simp add: flip_def)
  have "cell (transition_probability t') r c = cell (transition_probability t) r c"
    if "0 \<le> r" "r < n" "0 \<le> c" "c < n" for r c
    using that
    by (simp add: agrees_at [OF at] agrees_at [OF at'] final_tp_def tp_off_def zeroed_simps
        cell_zeros neg tp_value_flip)
  then have tp: "transition_probability t' = transition_probability t"
    by (intro matrix_eqI [OF agrees_sized [OF at'] agrees_sized [OF at]])
  have "(r = c \<longrightarrow>
          cell (j_z t') r c = cell (j_z t) r c \<and>
          cell (j_plus t') r c = cell (j_plus t) r c \<and>
          cell (j_minus t') r c = cell (j_minus t) r c) \<and>
       (r \<noteq> c \<and> (r = k \<or> c = k) \<longrightarrow>
          cell (j_z t') r c = - cell (j_z t) r c \<and>
          cell (j_plus t') r c = - cell (j_plus t) r c \<and>
          cell (j_minus t') r c = - cell (j_minus t) r c)"
    if "0 \<le> r" "r < n" "0 \<le> c" "c < n" for r c
    using that by (auto simp: z p m flip_def)
  with g g' tp show ?thesis by blast
qed

theorem C6_sign_flip_witness:
  "\<exists>ret t ret' t'.
     get real_arith (zeroed 2 (identity 2)) (1 / 2) (3 / 4) 2 = Some (ret, t) \<and>
     get real_arith (zeroed 2 (negate_column 0 (identity 2))) (1 / 2) (3 / 4) 2 = Some (ret', t') \<and>
     transition_probability t' = transition_probability t \<and>
     cell (j_z t') 0 0 = cell (j_z t) 0 0 \<and>
     cell (j_plus t') 1 1 = cell (j_plus t) 1 1 \<and>
     cell (j_plus t') 1 0 = - cell (j_plus t) 1 0 \<and>
     cell (j_minus t') 0 1 = - cell (j_minus t) 0 1"
proof -
  have n: "(1::int) \<le> 2" "(0::int) \<le> 0" "(0::int) < 2" by simp_all
  have e: "sized 2 (identity 2 :: real matrix)" by (simp add: sized_identity)
  from C6_sign_flip [OF n(1) e n(2,3), of "1 / 2" "3 / 4"]
  obtain ret t ret' t' where
    g: "get real_arith (zeroed 2 (identity 2)) (1 / 2) (3 / 4) 2 = Some (ret, t)"
    and g': "get real_arith (zeroed 2 (negate_column 0 (identity 2))) (1 / 2) (3 / 4) 2 =
      Some (ret', t')"
    and tp: "transition_probability t' = transition_probability t"
    and f: "\<forall>r c. 0 \<le> r \<and> r < 2 \<and> 0 \<le> c \<and> c < 2 \<longrightarrow>
       (r = c \<longrightarrow>
          cell (j_z t') r c = cell (j_z t) r c \<and>
          cell (j_plus t') r c = cell (j_plus t) r c \<and>
          cell (j_minus t') r c = cell (j_minus t) r c) \<and>
       (r \<noteq> c \<and> (r = 0 \<or> c = 0) \<longrightarrow>
          cell (j_z t') r c = - cell (j_z t) r c \<and>
          cell (j_plus t') r c = - cell (j_plus t) r c \<and>
          cell (j_minus t') r c = - cell (j_minus t) r c)"
    by blast
  from f [rule_format, of 0 0] f [rule_format, of 1 1] f [rule_format, of 1 0]
    f [rule_format, of 0 1] g g' tp
  show ?thesis by simp
qed

text \<open>
  Claim C7. On return every diagonal cell of \<open>transition_probability\<close> holds what it held at
  the call, whatever that was and for every arithmetic: the routine leaves the diagonal
  alone, and a zero-initialised diagonal is zero on return.
\<close>

theorem C7_diagonal_untouched:
  assumes "1 \<le> n" and "sized_mem n s"
  shows "\<exists>ret t. get A s j squared_j n = Some (ret, t) \<and>
    (\<forall>r. 0 \<le> r \<and> r < n \<longrightarrow>
       cell (transition_probability t) r r = cell (transition_probability s) r r)"
proof -
  obtain t where g: "get A s j squared_j n = Some (cell (j_z t) 0 0, t)"
    and at: "agrees n (transition_probability t) (final_tp A s j squared_j n)"
    using get_spec [OF assms(2,1), of A j squared_j] by blast
  have "cell (transition_probability t) r r = cell (transition_probability s) r r"
    if "0 \<le> r" "r < n" for r
    using that by (simp add: agrees_at [OF at] final_tp_def)
  with g show ?thesis by blast
qed

theorem C7_diagonal_untouched_witness:
  "\<exists>ret t. get real_arith J_half (1 / 2) (3 / 4) 2 = Some (ret, t) \<and>
     cell (transition_probability t) 0 0 = 0 \<and> cell (transition_probability t) 1 1 = 0"
proof -
  have "(1::int) \<le> 2" by simp
  from C7_diagonal_untouched [OF this sized_mem_J_half, of real_arith "1 / 2" "3 / 4"]
  obtain ret t where g: "get real_arith J_half (1 / 2) (3 / 4) 2 = Some (ret, t)"
    and d: "\<forall>r. 0 \<le> r \<and> r < 2 \<longrightarrow>
       cell (transition_probability t) r r = cell (transition_probability J_half) r r"
    by blast
  from d [rule_format, of 0] d [rule_format, of 1] g show ?thesis
    by (simp add: J_half_def zeroed_def cell_zeros)
qed

text \<open>
  Claim C8, as stated, fails: zero-initialising all four matrices is not necessary. The
  cells below the diagonal of \<open>j_z\<close>, \<open>j_plus\<close> and \<open>j_minus\<close>, the diagonal of \<open>j_minus\<close> and the
  off-diagonal cells of \<open>transition_probability\<close> are assigned (lines 15, 34 and 37 to 40)
  and never read before. A memory with a non-zero cell there in each of the four output
  matrices gives the very result of the zero-initialised memory.
\<close>

theorem C8_counterexample:
  "get ieee_arith junk (Some (1 / 2)) (Some (3 / 4)) 2 =
     get ieee_arith (cleared 2 (Some 0) (unit_matrix 2 (Some 0) (Some 1)))
       (Some (1 / 2)) (Some (3 / 4)) 2 \<and>
   get ieee_arith junk (Some (1 / 2)) (Some (3 / 4)) 2 \<noteq> None \<and>
   j_z junk \<noteq> const_matrix 2 (Some 0) \<and> j_plus junk \<noteq> const_matrix 2 (Some 0) \<and>
   j_minus junk \<noteq> const_matrix 2 (Some 0) \<and>
   transition_probability junk \<noteq> const_matrix 2 (Some 0)"
proof -
  let ?z = "cleared 2 (Some 0) (unit_matrix 2 (Some 0) (Some 1)) :: real option mem"
  have n: "(1::int) \<le> 2" by simp
  have sz: "sized_mem 2 ?z"
    by (simp add: sized_mem_cleared sized_unit_matrix)
  have sj: "sized_mem 2 junk"
    by (simp add: junk_def sized_mem_def sized_unit_matrix) (simp add: sized_def)
  have eq: "cell (j_z junk) r c = cell (j_z ?z) r c \<and>
       cell (j_plus junk) r c = cell (j_plus ?z) r c \<and>
       (r < c \<longrightarrow> cell (j_minus junk) r c = cell (j_minus ?z) r c) \<and>
       (r = c \<longrightarrow> cell (transition_probability junk) r c = cell (transition_probability ?z) r c)"
    if "0 \<le> r" "r \<le> c" "c < 2" for r c
  proof -
    from that have "(r = 0 \<and> c = 0) \<or> (r = 0 \<and> c = 1) \<or> (r = 1 \<and> c = 1)" by auto
    then show ?thesis
      by (auto simp: junk_def cleared_def const_matrix_def cell_def numeral_2_eq_2)
  qed
  have "get ieee_arith junk (Some (1 / 2)) (Some (3 / 4)) 2 =
      get ieee_arith ?z (Some (1 / 2)) (Some (3 / 4)) 2"
    by (rule get_depends [OF n sz sj _ eq]) (simp_all add: junk_def cleared_def)
  moreover have "get ieee_arith junk (Some (1 / 2)) (Some (3 / 4)) 2 \<noteq> None"
    using get_spec [OF sj n, of ieee_arith "Some (1 / 2)" "Some (3 / 4)"] by auto
  ultimately show ?thesis
    by (simp add: junk_def const_matrix_def numeral_2_eq_2)
qed

text \<open>
  Claim C8, amended. For every arithmetic: on the diagonal and above it the final \<open>j_z\<close> and
  \<open>j_plus\<close>, and above the diagonal the final \<open>j_minus\<close>, are the value the cell held at the
  call with the terms of the source added to it one after the other, each addition rounded
  as the arithmetic rounds (for \<open>j_z\<close> the term of the top index \<open>size - 1\<close> comes first, then
  those of the indices 0 to \<open>size - 2\<close>). The result of the call depends on the output
  matrices through these cells and the diagonal of \<open>transition_probability\<close> only: a memory
  that agrees with \<open>s\<close> on them and on the eigenvectors gives the same result. So the
  specified results are obtained whenever those cells are zero at the call.
\<close>

theorem C8_accumulation:
  fixes A :: "('f, 'd) arith" and s :: "'f mem" and j squared_j :: 'f and n :: int
  defines "e \<equiv> cell (eigenfunctions s)"
    and "m \<equiv> \<lambda>i. f_sub A (f_of_int A i) j"
  defines "rt \<equiv> \<lambda>i. to_f A (d_sqrt A (to_d A (f_sub A squared_j (f_mul A (m i) (m (i + 1))))))"
  assumes "1 \<le> n" and "sized_mem n s"
  shows "\<exists>ret t. get A s j squared_j n = Some (ret, t) \<and>
    (\<forall>r. 0 \<le> r \<and> r < n \<longrightarrow>
       cell (j_z t) r r =
         foldl (\<lambda>acc i. to_f A (d_add A (to_d A acc)
                  (d_mul A (d_pow A (to_d A (e i r)) (d_of_int A 2)) (to_d A (m i)))))
           (cell (j_z s) r r) ((n - 1) # [0..n - 2]) \<and>
       cell (j_plus t) r r =
         foldl (\<lambda>acc i. to_f A (d_add A (to_d A acc)
                  (d_mul A (to_d A (f_mul A (e (i + 1) r) (e i r)))
                     (d_sqrt A (to_d A (f_sub A squared_j
                        (f_mul A (m i) (f_add A (m i) (f_of_int A 1)))))))))
           (cell (j_plus s) r r) [0..n - 2]) \<and>
    (\<forall>r c. 0 \<le> r \<and> r < c \<and> c < n \<longrightarrow>
       cell (j_z t) r c =
         foldl (\<lambda>acc i. f_add A acc (f_mul A (f_mul A (e i r) (e i c)) (m i)))
           (cell (j_z s) r c) ((n - 1) # [0..n - 2]) \<and>
       cell (j_plus t) r c =
         foldl (\<lambda>acc i. f_add A acc (f_mul A (f_mul A (e (i + 1) r) (e i c)) (rt i)))
           (cell (j_plus s) r c) [0..n - 2] \<and>
       cell (j_minus t) r c =
         foldl (\<lambda>acc i. f_add A acc (f_mul A (f_mul A (e i r) (e (i + 1) c)) (rt i)))
           (cell (j_minus s) r c) [0..n - 2]) \<and>
    (\<forall>s'. sized_mem n s' \<and> eigenfunctions s' = eigenfunctions s \<and>
       (\<forall>r c. 0 \<le> r \<and> r \<le> c \<and> c < n \<longrightarrow>
          cell (j_z s') r c = cell (j_z s) r c \<and>
          cell (j_plus s') r c = cell (j_plus s) r c \<and>
          (r < c \<longrightarrow> cell (j_minus s') r c = cell (j_minus s) r c) \<and>
          (r = c \<longrightarrow>
             cell (transition_probability s') r c = cell (transition_probability s) r c)) \<longrightarrow>
       get A s' j squared_j n = Some (ret, t))"
proof -
  obtain t where g: "get A s j squared_j n = Some (cell (j_z t) 0 0, t)"
    and az: "agrees n (j_z t) (final_jz A s j n)"
    and ap: "agrees n (j_plus t) (final_jp A s j squared_j n)"
    and am: "agrees n (j_minus t) (final_jm A s j squared_j n)"
    using get_spec [OF assms(5,4), of A j squared_j] by blast
  have d: "cell (j_z t) r r =
         foldl (\<lambda>acc i. to_f A (d_add A (to_d A acc)
                  (d_mul A (d_pow A (to_d A (e i r)) (d_of_int A 2)) (to_d A (m i)))))
           (cell (j_z s) r r) ((n - 1) # [0..n - 2]) \<and>
       cell (j_plus t) r r =
         foldl (\<lambda>acc i. to_f A (d_add A (to_d A acc)
                  (d_mul A (to_d A (f_mul A (e (i + 1) r) (e i r)))
                     (d_sqrt A (to_d A (f_sub A squared_j
                        (f_mul A (m i) (f_add A (m i) (f_of_int A 1)))))))))
           (cell (j_plus s) r r) [0..n - 2]"
    if "0 \<le> r" "r < n" for r
    using that
    by (simp add: agrees_at [OF az] agrees_at [OF ap] final_jz_def final_jp_def
        jz_diag_def jp_diag_def accumulate_def jz_diag_add_def jp_diag_add_def diag_root_def
        e_def m_def)
  have u: "cell (j_z t) r c =
         foldl (\<lambda>acc i. f_add A acc (f_mul A (f_mul A (e i r) (e i c)) (m i)))
           (cell (j_z s) r c) ((n - 1) # [0..n - 2]) \<and>
       cell (j_plus t) r c =
         foldl (\<lambda>acc i. f_add A acc (f_mul A (f_mul A (e (i + 1) r) (e i c)) (rt i)))
           (cell (j_plus s) r c) [0..n - 2] \<and>
       cell (j_minus t) r c =
         foldl (\<lambda>acc i. f_add A acc (f_mul A (f_mul A (e i r) (e (i + 1) c)) (rt i)))
           (cell (j_minus s) r c) [0..n - 2]"
    if "0 \<le> r" "r < c" "c < n" for r c
    using that
    by (simp add: agrees_at [OF az] agrees_at [OF ap] agrees_at [OF am]
        final_jz_def final_jp_def final_jm_def
        jz_off_def jp_off_def jm_off_def accumulate_def off_add_def mqn_def common_root_def
        e_def m_def rt_def)
  have f: "get A s' j squared_j n = Some (cell (j_z t) 0 0, t)"
    if "sized_mem n s'" "eigenfunctions s' = eigenfunctions s"
      "\<forall>r c. 0 \<le> r \<and> r \<le> c \<and> c < n \<longrightarrow>
          cell (j_z s') r c = cell (j_z s) r c \<and>
          cell (j_plus s') r c = cell (j_plus s) r c \<and>
          (r < c \<longrightarrow> cell (j_minus s') r c = cell (j_minus s) r c) \<and>
          (r = c \<longrightarrow>
             cell (transition_probability s') r c = cell (transition_probability s) r c)"
    for s'
    using get_depends [OF assms(4,5) that(1,2), of A j squared_j] that(3) g by simp
  from g d u f show ?thesis by blast
qed

theorem C8_accumulation_witness:
  "\<exists>ret t. get real_arith busy_tilted (1 / 2) (3 / 4) 2 = Some (ret, t) \<and>
     cell (j_z t) 0 0 = 1 + 8 / 25 - 9 / 50 \<and>
     cell (j_plus t) 0 0 = 5 - 12 / 25 \<and>
     cell (j_z t) 0 1 = 2 - 6 / 25 - 6 / 25 \<and>
     cell (j_plus t) 0 1 = 6 - 16 / 25 \<and>
     cell (j_minus t) 0 1 = 10 + 9 / 25"
proof -
  have n: "(1::int) \<le> 2" by simp
  have s: "sized_mem 2 busy_tilted"
    by (simp add: busy_tilted_def tilted_def sized_mem_def sized_def)
  from C8_accumulation [OF n s, of real_arith "1 / 2" "3 / 4"]
  obtain ret t where g: "get real_arith busy_tilted (1 / 2) (3 / 4) 2 = Some (ret, t)"
    and d: "\<forall>r. 0 \<le> r \<and> r < 2 \<longrightarrow>
       cell (j_z t) r r =
         foldl (\<lambda>acc i. acc + (cell (eigenfunctions busy_tilted) i r)\<^sup>2 * (of_int i - 1 / 2))
           (cell (j_z busy_tilted) r r) [1, 0] \<and>
       cell (j_plus t) r r =
         foldl (\<lambda>acc i. acc + cell (eigenfunctions busy_tilted) (i + 1) r *
                  cell (eigenfunctions busy_tilted) i r *
                  sqrt (3 / 4 - (of_int i - 1 / 2) * (of_int i - 1 / 2 + 1)))
           (cell (j_plus busy_tilted) r r) [0]"
    and u: "\<forall>r c. 0 \<le> r \<and> r < c \<and> c < 2 \<longrightarrow>
       cell (j_z t) r c =
         foldl (\<lambda>acc i. acc + cell (eigenfunctions busy_tilted) i r *
                  cell (eigenfunctions busy_tilted) i c * (of_int i - 1 / 2))
           (cell (j_z busy_tilted) r c) [1, 0] \<and>
       cell (j_plus t) r c =
         foldl (\<lambda>acc i. acc + cell (eigenfunctions busy_tilted) (i + 1) r *
                  cell (eigenfunctions busy_tilted) i c *
                  sqrt (3 / 4 - (of_int i - 1 / 2) * (of_int (i + 1) - 1 / 2)))
           (cell (j_plus busy_tilted) r c) [0] \<and>
       cell (j_minus t) r c =
         foldl (\<lambda>acc i. acc + cell (eigenfunctions busy_tilted) i r *
                  cell (eigenfunctions busy_tilted) (i + 1) c *
                  sqrt (3 / 4 - (of_int i - 1 / 2) * (of_int (i + 1) - 1 / 2)))
           (cell (j_minus busy_tilted) r c) [0]"
    by (simp add: real_arith_simps pow_real_2) blast
  from d [rule_format, of 0] u [rule_format, of 0 1] g show ?thesis
    by (simp add: busy_tilted_def tilted_def cell_def power2_eq_square)
qed

text \<open>
  Claim C10. Whenever the call returns, the value returned is \<open>j_z[0][0]\<close> as it stands at
  the end: of the array \<open>result\<close> of line 43 only the first element is returned.
\<close>

theorem C10_return_value:
  "get A s j squared_j n = Some (ret, t) \<Longrightarrow> ret = cell (j_z t) 0 0"
  by (auto simp: get_def rd_def split: Option.bind_splits if_splits)

theorem C10_return_value_witness:
  "get real_arith J_half (1 / 2) (3 / 4) 2 =
     Some (- 1 / 2,
       \<lparr> j_z = [[- 1 / 2, 0], [0, 1 / 2]], j_plus = [[0, 0], [1, 0]], j_minus = [[0, 1], [0, 0]],
         transition_probability = [[0, 1 / 3], [1 / 3, 0]],
         eigenfunctions = [[1, 0], [0, 1]] \<rparr>) \<and>
   - 1 / 2 = cell (j_z \<lparr> j_z = [[- 1 / 2, 0], [0, 1 / 2]], j_plus = [[0, 0], [1, 0]],
         j_minus = [[0, 1], [0, 0]], transition_probability = [[0, 1 / 3], [1 / 3, 0]],
         eigenfunctions = [[1, 0], [0, 1 :: real]] \<rparr>) 0 0"
  using C10_return_value [OF get_J_half] get_J_half by simp

end
